theory Spec2Isabelle
  imports Complex_Main "HOL-Library.Monad_Syntax" "HOL-Library.AList"
begin

section \<open>The RPN post-processor of maskrcnn\_benchmark/modeling/rpn/inference.py\<close>

text \<open>
  The module turns the objectness logits and the box-regression deltas of every feature
  level into a bounded list of proposals per image. Floating-point numbers are read as
  reals. A Python exception is the value \<open>None\<close>: every function that can raise returns
  an \<open>option\<close>, and a list comprehension or a \<^verbatim>\<open>for\<close> loop whose body can raise is
  \<open>mapM\<close>, which stops at the first \<open>None\<close>.
\<close>

subsection \<open>Boxes, box lists and tensors\<close>

text \<open>A row of a \<^verbatim>\<open>bbox\<close> tensor in mode xyxy: min-x, min-y, max-x, max-y.\<close>

datatype box = Box (xmin: real) (ymin: real) (xmax: real) (ymax: real)

text \<open>
  Modelled from the spec: the class \<^verbatim>\<open>BoxList\<close> of structures/bounding\_box.py, which is not
  among the sources. The spec, sections 1 and 3: the boxes, the size (width, height) of the
  image they are valid within (the attribute \<^verbatim>\<open>size\<close>), and named per-box scalar fields
  (the dictionary \<^verbatim>\<open>extra_fields\<close>, in insertion order).
\<close>

record boxlist =
  bbox :: "box list"
  im_size :: "real \<times> real"
  extra_fields :: "(string \<times> real list) list"

text \<open>
  A four-dimensional torch tensor: its shape and its elements in row-major order, so that
  the element \<open>[n, c, h, w]\<close> of a tensor of shape \<open>(N, C, H, W)\<close> is at position
  \<open>((n * C + c) * H + h) * W + w\<close> of the storage.
\<close>

record tensor =
  shape :: "nat \<times> nat \<times> nat \<times> nat"
  storage :: "real list"

fun mapM :: "('a \<Rightarrow> 'b option) \<Rightarrow> 'a list \<Rightarrow> 'b list option" where
  "mapM f [] = Some []"
| "mapM f (x # xs) = do { y \<leftarrow> f x; ys \<leftarrow> mapM f xs; Some (y # ys) }"

subsection \<open>torch primitives\<close>

definition sigmoid :: "real \<Rightarrow> real" where
  "sigmoid x = 1 / (1 + exp (- x))"

text \<open>
  \<^verbatim>\<open>torch.cat(tensors, dim=0)\<close> raises on an empty list of tensors.
\<close>

definition torch_cat :: "'a list list \<Rightarrow> 'a list option" where
  "torch_cat xss = (if xss = [] then None else Some (concat xss))"

text \<open>
  \<^verbatim>\<open>t.reshape(N, -1, 4)\<close> and \<^verbatim>\<open>t.view(N, -1)\<close> on a tensor whose rows are the elements of
  \<open>xs\<close>: the inferred dimension is \<open>length xs div N\<close>; torch raises when \<open>N\<close> is zero (the
  inferred dimension is ambiguous or the sizes disagree) and when \<open>N\<close> does not divide the
  number of rows.
\<close>

definition reshape_rows :: "nat \<Rightarrow> 'a list \<Rightarrow> 'a list list option" where
  "reshape_rows N xs =
     (if N = 0 \<or> length xs mod N \<noteq> 0 then None
      else Some (map (\<lambda>n. take (length xs div N) (drop (n * (length xs div N)) xs)) [0..<N]))"

text \<open>
  \<^verbatim>\<open>torch.topk(xs, k, dim, sorted=True)\<close> on one row: the \<open>k\<close> largest values in descending
  order and their positions; it raises when \<open>k\<close> is negative or exceeds the length. torch
  leaves the order of equal values open; the model takes the stable one (of two equal scores
  the one at the lower position comes first).
\<close>

definition argsort_desc :: "real list \<Rightarrow> nat list" where
  "argsort_desc xs = map snd (sort_key (\<lambda>p. - fst p) (zip xs [0..<length xs]))"

definition topk :: "real list \<Rightarrow> int \<Rightarrow> (real list \<times> nat list) option" where
  "topk xs k =
     (if k < 0 \<or> int (length xs) < k then None
      else let idx = take (nat k) (argsort_desc xs) in Some (map (\<lambda>i. xs ! i) idx, idx))"

text \<open>
  Indexing with an integer tensor, \<^verbatim>\<open>xs[idx]\<close>: IndexError on a position out of range.
\<close>

definition index_select :: "'a list \<Rightarrow> nat list \<Rightarrow> 'a list option" where
  "index_select xs idx =
     (if list_all (\<lambda>i. i < length xs) idx then Some (map (\<lambda>i. xs ! i) idx) else None)"

text \<open>
  Indexing with a boolean tensor, \<^verbatim>\<open>xs[mask]\<close>: the mask must have the length of \<open>xs\<close>; the
  rows where it is true are kept, in their order.
\<close>

definition mask_select :: "'a list \<Rightarrow> bool list \<Rightarrow> 'a list option" where
  "mask_select xs keep =
     (if length keep = length xs then Some (map fst (filter snd (zip xs keep))) else None)"

text \<open>
  \<^verbatim>\<open>t[batch_idx, topk_idx]\<close> with \<^verbatim>\<open>batch_idx = arange(N)[:, None]\<close>: row \<open>n\<close> of the result
  is row \<open>n\<close> of \<open>t\<close> read at the positions \<open>topk_idx[n]\<close>.
\<close>

definition gather :: "'a list list \<Rightarrow> nat list list \<Rightarrow> 'a list list option" where
  "gather rows idxs =
     (if length rows = length idxs then mapM (\<lambda>(row, idx). index_select row idx) (zip rows idxs)
      else None)"

text \<open>
  \<^verbatim>\<open>t.split(sizes)\<close>: consecutive chunks of the given sizes; it raises unless the sizes
  add up to the length.
\<close>

fun split_sizes :: "'a list \<Rightarrow> nat list \<Rightarrow> 'a list list option" where
  "split_sizes xs [] = (if xs = [] then Some [] else None)"
| "split_sizes xs (n # ns) =
     (if length xs < n then None else map_option (Cons (take n xs)) (split_sizes (drop n xs) ns))"

text \<open>
  \<^verbatim>\<open>list(zip(*xss))\<close>: the transposition, cut at the shortest inner list.
\<close>

definition zip_star :: "'a list list \<Rightarrow> 'a list list" where
  "zip_star xss =
     (if xss = [] then []
      else map (\<lambda>i. map (\<lambda>xs. xs ! i) xss) [0..<Min (set (map length xss))])"

subsection \<open>The collaborators outside this file\<close>

text \<open>
  Modelled from the spec: \<^verbatim>\<open>permute_and_flatten\<close> of modeling/rpn/utils.py, which is not
  among the sources. The spec, section 4.1 step 1: both tensors are flattened so that, for
  each image, there is a flat sequence of \<open>A * H * W\<close> rows of \<open>C\<close> values in an order
  matching the anchor list (every location, and at each location every anchor); section 7:
  a shape mismatch is fatal. The layer has shape \<open>(N, A * C, H, W)\<close>: row
  \<open>(h * W + w) * A + a\<close> of image \<open>n\<close> holds the elements \<open>[n, a * C + c, h, w]\<close>.
\<close>

definition permute_and_flatten ::
  "tensor \<Rightarrow> nat \<Rightarrow> nat \<Rightarrow> nat \<Rightarrow> nat \<Rightarrow> nat \<Rightarrow> real list list list option" where
  "permute_and_flatten layer N A C H W =
     (if length (storage layer) \<noteq> N * A * C * H * W then None
      else Some (map (\<lambda>n. map (\<lambda>j. map (\<lambda>c.
              storage layer !
                ((((n * A + j mod A) * C + c) * H + j div (A * W)) * W + (j div A) mod W))
            [0..<C]) [0..<H * W * A]) [0..<N]))"

text \<open>
  Modelled from the spec: the constructor of \<^verbatim>\<open>BoxList\<close> (structures/bounding\_box.py, not
  among the sources). The spec, section 1: the container stores boxes and per-box scalar
  fields; a new one has no field.
\<close>

definition BoxList :: "box list \<Rightarrow> real \<times> real \<Rightarrow> boxlist" where
  "BoxList b sz = \<lparr>bbox = b, im_size = sz, extra_fields = []\<rparr>"

text \<open>
  Modelled from the spec: \<^verbatim>\<open>BoxList.add_field\<close>, an assignment in the dictionary of fields.
\<close>

definition add_field :: "boxlist \<Rightarrow> string \<Rightarrow> real list \<Rightarrow> boxlist" where
  "add_field bl name data = bl\<lparr>extra_fields := AList.update name data (extra_fields bl)\<rparr>"

text \<open>
  Modelled from the spec: \<^verbatim>\<open>BoxList.get_field\<close>, a lookup in the dictionary of fields;
  a missing name is a KeyError.
\<close>

definition get_field :: "boxlist \<Rightarrow> string \<Rightarrow> real list option" where
  "get_field bl name = map_of (extra_fields bl) name"

text \<open>Modelled from the spec: \<^verbatim>\<open>BoxList.__len__\<close>, the number of boxes.\<close>

definition len :: "boxlist \<Rightarrow> nat" where
  "len bl = length (bbox bl)"

text \<open>
  Modelled from the spec: \<^verbatim>\<open>BoxList.copy_with_fields\<close>, the same boxes with the named
  fields only.
\<close>

definition copy_with_fields :: "boxlist \<Rightarrow> string list \<Rightarrow> boxlist option" where
  "copy_with_fields bl names = do {
     fs \<leftarrow> mapM (\<lambda>name. map_option (Pair name) (get_field bl name)) names;
     Some \<lparr>bbox = bbox bl, im_size = im_size bl, extra_fields = fs\<rparr> }"

text \<open>
  Modelled from the spec: \<^verbatim>\<open>BoxList.__getitem__\<close> with an integer index tensor. The spec,
  section 1: the container is indexed by a boolean or an integer mask; the boxes and every
  field are indexed alike.
\<close>

definition getitem :: "boxlist \<Rightarrow> nat list \<Rightarrow> boxlist option" where
  "getitem bl idx = do {
     b \<leftarrow> index_select (bbox bl) idx;
     fs \<leftarrow> mapM (\<lambda>(name, v). map_option (Pair name) (index_select v idx)) (extra_fields bl);
     Some \<lparr>bbox = b, im_size = im_size bl, extra_fields = fs\<rparr> }"

text \<open>Modelled from the spec: \<^verbatim>\<open>BoxList.__getitem__\<close> with a boolean mask.\<close>

definition getitem_mask :: "boxlist \<Rightarrow> bool list \<Rightarrow> boxlist option" where
  "getitem_mask bl keep = do {
     b \<leftarrow> mask_select (bbox bl) keep;
     fs \<leftarrow> mapM (\<lambda>(name, v). map_option (Pair name) (mask_select v keep)) (extra_fields bl);
     Some \<lparr>bbox = b, im_size = im_size bl, extra_fields = fs\<rparr> }"

text \<open>
  Modelled from the spec: the width and the height of a box \<open>(min-x, min-y, max-x, max-y)\<close>
  (section 3); a degenerate box is one of zero area (section 4.1 step 5).
\<close>

definition width :: "box \<Rightarrow> real" where
  "width b = xmax b - xmin b"

definition height :: "box \<Rightarrow> real" where
  "height b = ymax b - ymin b"

definition area :: "box \<Rightarrow> real" where
  "area b = width b * height b"

text \<open>
  Modelled from the spec: \<^verbatim>\<open>BoxList.clip_to_image\<close>. The spec, section 4.1 step 5: every
  box is clipped to the image's valid coordinate range, here \<open>[0, w]\<close> by \<open>[0, h]\<close> for an
  image of size \<open>(w, h)\<close>; the degenerate (zero-area) boxes that result are not removed
  under \<^verbatim>\<open>remove_empty=False\<close>, and are under \<^verbatim>\<open>remove_empty=True\<close>.
\<close>

definition clamp :: "real \<Rightarrow> real \<Rightarrow> real \<Rightarrow> real" where
  "clamp lo hi v = min (max v lo) hi"

definition clip_box :: "real \<times> real \<Rightarrow> box \<Rightarrow> box" where
  "clip_box sz b =
     Box (clamp 0 (fst sz) (xmin b)) (clamp 0 (snd sz) (ymin b))
         (clamp 0 (fst sz) (xmax b)) (clamp 0 (snd sz) (ymax b))"

definition clip_to_image :: "boxlist \<Rightarrow> bool \<Rightarrow> boxlist option" where
  "clip_to_image bl remove_empty =
     (let bl' = bl\<lparr>bbox := map (clip_box (im_size bl)) (bbox bl)\<rparr>
      in if remove_empty
         then getitem_mask bl' (map (\<lambda>b. xmin b < xmax b \<and> ymin b < ymax b) (bbox bl'))
         else Some bl')"

text \<open>
  Modelled from the spec: \<^verbatim>\<open>remove_small_boxes\<close> of structures/boxlist\_ops.py, which is not
  among the sources. The spec, section 4.1 step 6: any proposal whose width or height is
  strictly less than \<open>min_size\<close> is removed.
\<close>

definition remove_small_boxes :: "boxlist \<Rightarrow> real \<Rightarrow> boxlist option" where
  "remove_small_boxes bl ms =
     getitem_mask bl (map (\<lambda>b. \<not> (width b < ms \<or> height b < ms)) (bbox bl))"

text \<open>
  Modelled from the spec: \<^verbatim>\<open>cat_boxlist\<close> of structures/boxlist\_ops.py, which is not among
  the sources. The spec, section 4.3: the proposal sets are concatenated in the order given,
  each proposal keeping its score field and any other field. The comment at line 70 of
  inference.py: the concatenation requires all fields to be present for all box lists.
  The tuple must not be empty (\<^verbatim>\<open>bboxes[0]\<close>).
\<close>

definition cat_boxlist :: "boxlist list \<Rightarrow> boxlist option" where
  "cat_boxlist bboxes =
     (case bboxes of
        [] \<Rightarrow> None
      | b0 # _ \<Rightarrow> do {
          fs \<leftarrow> mapM (\<lambda>name. map_option (\<lambda>ds. (name, concat ds))
                                (mapM (\<lambda>b. get_field b name) bboxes))
                     (map fst (extra_fields b0));
          Some \<lparr>bbox = concat (map bbox bboxes), im_size = im_size b0, extra_fields = fs\<rparr> })"

text \<open>
  Modelled from the spec: intersection-over-union. The glossary: the ratio of the
  overlapping area to the area of the union of two boxes.
\<close>

definition intersection :: "box \<Rightarrow> box \<Rightarrow> real" where
  "intersection a b =
     max 0 (min (xmax a) (xmax b) - max (xmin a) (xmin b)) *
     max 0 (min (ymax a) (ymax b) - max (ymin a) (ymin b))"

definition iou :: "box \<Rightarrow> box \<Rightarrow> real" where
  "iou a b = intersection a b / (area a + area b - intersection a b)"

text \<open>
  Modelled from the spec: the suppression loop of \<^verbatim>\<open>boxlist_nms\<close>. The spec, section 4.2:
  repeatedly pick the highest-scoring remaining box, emit it, and discard every remaining
  box whose IoU with it exceeds the threshold; stop when no box remains or the output cap
  is reached. The candidates come in descending order of score, each with its position in
  the box list; the positions of the emitted boxes are returned.
\<close>

fun greedy_nms :: "real \<Rightarrow> nat \<Rightarrow> (box \<times> nat) list \<Rightarrow> nat list" where
  "greedy_nms t 0 cs = []"
| "greedy_nms t (Suc cap) [] = []"
| "greedy_nms t (Suc cap) ((b, i) # cs) =
     i # greedy_nms t cap (filter (\<lambda>(c, j). \<not> t < iou b c) cs)"

text \<open>
  Modelled from the spec: \<^verbatim>\<open>boxlist_nms\<close> of structures/boxlist\_ops.py, which is not among
  the sources. The boxes are ranked by the score field (of equal scores the earlier box
  first), suppressed greedily, and the box list is indexed by the positions that survive.
\<close>

definition boxlist_nms :: "boxlist \<Rightarrow> real \<Rightarrow> int \<Rightarrow> string \<Rightarrow> boxlist option" where
  "boxlist_nms bl thresh max_proposals score_field = do {
     score \<leftarrow> get_field bl score_field;
     order \<leftarrow> index_select (bbox bl) (argsort_desc score);
     getitem bl (greedy_nms thresh (nat max_proposals) (zip order (argsort_desc score))) }"

subsection \<open>RPNPostProcessor\<close>

text \<open>
  The attributes \<^verbatim>\<open>__init__\<close> sets, and the flag \<^verbatim>\<open>training\<close> of \<^verbatim>\<open>torch.nn.Module\<close>.
  The box coder is the function \<^verbatim>\<open>decode\<close> of the injected object, applied to one row of
  deltas and one anchor.
\<close>

type_synonym coder = "real list \<Rightarrow> box \<Rightarrow> box"

record RPNPostProcessor =
  pre_nms_top_n :: int
  post_nms_top_n :: int
  nms_thresh :: real
  min_size :: real
  box_coder :: coder
  fpn_post_nms_top_n :: int
  fpn_post_nms_per_batch :: bool
  training :: bool

text \<open>
  \<^verbatim>\<open>__init__\<close>, lines 20 to 57. \<open>BoxCoder_default\<close> stands for the decoder of
  \<^verbatim>\<open>BoxCoder(weights=(1.0, 1.0, 1.0, 1.0))\<close>, a class outside this file. The body has no
  \<^verbatim>\<open>raise\<close> and no \<^verbatim>\<open>assert\<close>: the result is never \<open>None\<close>. A fresh module is in
  training mode.
\<close>

definition RPNPostProcessor_init ::
  "coder \<Rightarrow> int \<Rightarrow> int \<Rightarrow> real \<Rightarrow> real \<Rightarrow> coder option \<Rightarrow> int option \<Rightarrow> bool
   \<Rightarrow> RPNPostProcessor option" where
  "RPNPostProcessor_init BoxCoder_default pre post thresh ms coder fpn_post per_batch =
     Some \<lparr>pre_nms_top_n = pre,
           post_nms_top_n = post,
           nms_thresh = thresh,
           min_size = ms,
           box_coder = (case coder of None \<Rightarrow> BoxCoder_default | Some c \<Rightarrow> c),
           fpn_post_nms_top_n = (case fpn_post of None \<Rightarrow> post | Some n \<Rightarrow> n),
           fpn_post_nms_per_batch = per_batch,
           training = True\<rparr>"

text \<open>\<^verbatim>\<open>add_gt_proposals\<close>, lines 59 to 80. \<^verbatim>\<open>proposals[0]\<close> raises on an empty list.\<close>

definition add_gt_proposals ::
  "RPNPostProcessor \<Rightarrow> boxlist list \<Rightarrow> boxlist list \<Rightarrow> boxlist list option" where
  "add_gt_proposals self proposals targets =
     (if proposals = [] then None
      else do {
        gt_boxes \<leftarrow> mapM (\<lambda>target. copy_with_fields target []) targets;
        let gt_boxes = map (\<lambda>gt_box. add_field gt_box ''objectness''
                                        (replicate (len gt_box) 1)) gt_boxes;
        mapM (\<lambda>(proposal, gt_box). cat_boxlist [proposal, gt_box]) (zip proposals gt_boxes) })"

text \<open>
  \<^verbatim>\<open>forward_for_single_feature_map\<close>, lines 91 to 130: the scores and deltas are flattened,
  the top \<open>pre_nms_top_n\<close> scores of each image are selected, and the deltas and anchors at
  the selected positions are decoded. The result is \<^verbatim>\<open>proposals\<close>, \<^verbatim>\<open>objectness\<close> and
  \<^verbatim>\<open>image_shapes\<close> as they stand before the loop of line 133. \<^verbatim>\<open>decode\<close> receives the rows
  of all images in one tensor and works row by row (the spec, section 4.1 step 3), so the
  two \<^verbatim>\<open>view\<close>s around it cancel.
\<close>

definition select_and_decode ::
  "RPNPostProcessor \<Rightarrow> boxlist list \<Rightarrow> tensor \<Rightarrow> tensor
   \<Rightarrow> (box list list \<times> real list list \<times> (real \<times> real) list) option" where
  "select_and_decode self anchors objectness box_regression =
     (case shape objectness of (N, A, H, W) \<Rightarrow> do {
        objectness \<leftarrow> permute_and_flatten objectness N A 1 H W;
        objectness \<leftarrow> (if N = 0 then None else Some (map concat objectness));
        let objectness = map (map sigmoid) objectness;
        box_regression \<leftarrow> permute_and_flatten box_regression N A 4 H W;
        let num_anchors = A * H * W;
        let pre_nms_top_n = min (pre_nms_top_n self) (int num_anchors);
        tk \<leftarrow> mapM (\<lambda>row. topk row pre_nms_top_n) objectness;
        let objectness = map fst tk;
        let topk_idx = map snd tk;
        box_regression \<leftarrow> gather box_regression topk_idx;
        let image_shapes = map im_size anchors;
        concat_anchors \<leftarrow> torch_cat (map bbox anchors);
        concat_anchors \<leftarrow> reshape_rows N concat_anchors;
        concat_anchors \<leftarrow> gather concat_anchors topk_idx;
        let proposals = map (\<lambda>(ds, as). map (\<lambda>(d, a). box_coder self d a) (zip ds as))
                            (zip box_regression concat_anchors);
        Some (proposals, objectness, image_shapes) })"

text \<open>The body of the loop of lines 133 to 146, for one image.\<close>

definition process_image ::
  "RPNPostProcessor \<Rightarrow> box list \<Rightarrow> real list \<Rightarrow> real \<times> real \<Rightarrow> boxlist option" where
  "process_image self proposal score im_shape = do {
     let boxlist = BoxList proposal im_shape;
     let boxlist = add_field boxlist ''objectness'' score;
     boxlist \<leftarrow> clip_to_image boxlist False;
     boxlist \<leftarrow> remove_small_boxes boxlist (min_size self);
     boxlist_nms boxlist (nms_thresh self) (post_nms_top_n self) ''objectness'' }"

definition forward_for_single_feature_map ::
  "RPNPostProcessor \<Rightarrow> boxlist list \<Rightarrow> tensor \<Rightarrow> tensor \<Rightarrow> boxlist list option" where
  "forward_for_single_feature_map self anchors objectness box_regression = do {
     (proposals, objectness, image_shapes) \<leftarrow>
        select_and_decode self anchors objectness box_regression;
     mapM (\<lambda>(proposal, score, im_shape). process_image self proposal score im_shape)
          (zip proposals (zip objectness image_shapes)) }"

text \<open>\<^verbatim>\<open>select_over_all_levels\<close>, lines 187 to 214.\<close>

definition select_over_all_levels ::
  "RPNPostProcessor \<Rightarrow> boxlist list \<Rightarrow> boxlist list option" where
  "select_over_all_levels self boxlists =
     (if training self \<and> fpn_post_nms_per_batch self then do {
        objectness \<leftarrow> mapM (\<lambda>boxlist. get_field boxlist ''objectness'') boxlists;
        objectness \<leftarrow> torch_cat objectness;
        let box_sizes = map len boxlists;
        let post_nms_top_n = min (fpn_post_nms_top_n self) (int (length objectness));
        (_, inds_sorted) \<leftarrow> topk objectness post_nms_top_n;
        let inds_mask = map (\<lambda>j. j \<in> set inds_sorted) [0..<length objectness];
        inds_mask \<leftarrow> split_sizes inds_mask box_sizes;
        mapM (\<lambda>(boxlist, keep). getitem_mask boxlist keep) (zip boxlists inds_mask) }
      else
        mapM (\<lambda>boxlist. do {
                objectness \<leftarrow> get_field boxlist ''objectness'';
                let post_nms_top_n = min (fpn_post_nms_top_n self) (int (length objectness));
                (_, inds_sorted) \<leftarrow> topk objectness post_nms_top_n;
                getitem boxlist inds_sorted })
             boxlists)"

text \<open>
  \<^verbatim>\<open>forward\<close>, lines 149 to 185. \<open>anchors\<close> has one list of per-level box lists for each
  image; \<open>objectness\<close> and \<open>box_regression\<close> have one tensor for each level.
\<close>

definition forward ::
  "RPNPostProcessor \<Rightarrow> boxlist list list \<Rightarrow> tensor list \<Rightarrow> tensor list
   \<Rightarrow> boxlist list option \<Rightarrow> boxlist list option" where
  "forward self anchors objectness box_regression targets = do {
     let num_levels = length objectness;
     let anchors = zip_star anchors;
     sampled_boxes \<leftarrow> mapM (\<lambda>(a, ob, br). forward_for_single_feature_map self a ob br)
                            (zip anchors (zip objectness box_regression));
     let boxlists = zip_star sampled_boxes;
     boxlists \<leftarrow> mapM cat_boxlist boxlists;
     boxlists \<leftarrow> (if num_levels > 1 then select_over_all_levels self boxlists
                   else Some boxlists);
     (case targets of
        Some ts \<Rightarrow> if training self then add_gt_proposals self boxlists ts else Some boxlists
      | None \<Rightarrow> Some boxlists) }"

subsection \<open>Predicates of the properties\<close>

text \<open>
  A box list is well formed when every field holds one scalar for each box.
\<close>

definition well_formed :: "boxlist \<Rightarrow> bool" where
  "well_formed bl \<longleftrightarrow> list_all (\<lambda>(name, v). length v = len bl) (extra_fields bl)"

text \<open>
  The box lists of the pipeline: well formed, with the scores as their only field.
\<close>

definition scored :: "boxlist \<Rightarrow> bool" where
  "scored bl \<longleftrightarrow> well_formed bl \<and> map fst (extra_fields bl) = [''objectness'']"

text \<open>
  A box list of the pipeline none of whose boxes is narrower or lower than \<open>min_size\<close>.
\<close>

definition admissible :: "RPNPostProcessor \<Rightarrow> boxlist \<Rightarrow> bool" where
  "admissible self bl \<longleftrightarrow>
     scored bl \<and> list_all (\<lambda>b. min_size self \<le> width b \<and> min_size self \<le> height b) (bbox bl)"

text \<open>
  \<open>idx\<close> lists the positions of the \<open>k\<close> highest values of \<open>xs\<close>, highest first: \<open>k\<close>
  distinct positions of \<open>xs\<close>, in descending order of their values, and no value left
  out exceeds a value taken.
\<close>

definition is_topk :: "real list \<Rightarrow> nat \<Rightarrow> nat list \<Rightarrow> bool" where
  "is_topk xs k idx \<longleftrightarrow>
     length idx = k \<and> distinct idx \<and> list_all (\<lambda>j. j < length xs) idx \<and>
     sorted_wrt (\<lambda>a b. xs ! b \<le> xs ! a) idx \<and>
     list_all (\<lambda>i. i \<in> set idx \<or> list_all (\<lambda>j. xs ! i \<le> xs ! j) idx) [0..<length xs]"

text \<open>
  \<open>keep\<close> marks \<open>k\<close> positions of \<open>xs\<close> that hold \<open>k\<close> highest values: no value left
  out exceeds a value marked.
\<close>

definition is_topk_mask :: "real list \<Rightarrow> nat \<Rightarrow> bool list \<Rightarrow> bool" where
  "is_topk_mask xs k keep \<longleftrightarrow>
     length keep = length xs \<and> length (filter id keep) = k \<and>
     list_all (\<lambda>i. keep ! i \<or> list_all (\<lambda>j. \<not> keep ! j \<or> xs ! i \<le> xs ! j) [0..<length xs])
       [0..<length xs]"

text \<open>
  The body of the loop of lines 207 to 213 of \<^verbatim>\<open>select_over_all_levels\<close>, for one image
  and the limit \<open>cap\<close>.
\<close>

definition select_image :: "int \<Rightarrow> boxlist \<Rightarrow> boxlist option" where
  "select_image cap boxlist = do {
     objectness \<leftarrow> get_field boxlist ''objectness'';
     let post_nms_top_n = min cap (int (length objectness));
     (_, inds_sorted) \<leftarrow> topk objectness post_nms_top_n;
     getitem boxlist inds_sorted }"

subsection \<open>The examples\<close>

text \<open>
  The example of the spec, section 8: \<open>pre_nms_top_n = 4\<close>, \<open>post_nms_top_n = 2\<close>,
  \<open>nms_thresh = 0.7\<close>, \<open>min_size = 0\<close>, \<open>fpn_post_nms_top_n = 3\<close>, the final selection per image; a box coder that shifts the
  anchor by the deltas; and the aggregated proposals of image 0, with the scores
  \<open>[0.9, 0.8, 0.95, 0.2]\<close>.
\<close>

definition example_coder :: coder where
  "example_coder d a = Box (xmin a + d ! 0) (ymin a + d ! 1) (xmax a + d ! 2) (ymax a + d ! 3)"

definition example_processor :: RPNPostProcessor where
  "example_processor =
     \<lparr>pre_nms_top_n = 4, post_nms_top_n = 2, nms_thresh = 7 / 10, min_size = 0,
      box_coder = example_coder, fpn_post_nms_top_n = 3, fpn_post_nms_per_batch = False,
      training = False\<rparr>"

definition example_boxlist :: boxlist where
  "example_boxlist =
     \<lparr>bbox = [Box 0 0 1 1, Box 2 2 3 3, Box 4 4 5 5, Box 6 6 7 7], im_size = (10, 10),
      extra_fields = [(''objectness'', [9 / 10, 8 / 10, 95 / 100, 2 / 10])]\<rparr>"

text \<open>The example processor in training mode, with the final selection per batch.\<close>

definition example_training_processor :: RPNPostProcessor where
  "example_training_processor =
     example_processor\<lparr>fpn_post_nms_per_batch := True, training := True\<rparr>"

text \<open>
  The training processor with \<open>min_size = 5\<close>, and the ground truth of the example image:
  one box of width and height 1.
\<close>

definition example_strict_processor :: RPNPostProcessor where
  "example_strict_processor = example_training_processor\<lparr>min_size := 5\<rparr>"

definition example_targets :: "boxlist list" where
  "example_targets = [BoxList [Box 1 1 2 2] (20, 20)]"

text \<open>
  One feature level of one image with two anchors (\<open>A = 1\<close>, \<open>H = 1\<close>, \<open>W = 2\<close>): the
  logits \<open>0\<close> and \<open>1\<close>, the deltas \<open>(0, 0, 0, 0)\<close> and \<open>(1, 1, 1, 1)\<close>, and the anchor
  boxes in an image of size 20 by 20.
\<close>

definition example_objectness :: tensor where
  "example_objectness = \<lparr>shape = (1, 1, 1, 2), storage = [0, 1]\<rparr>"

definition example_box_regression :: tensor where
  "example_box_regression = \<lparr>shape = (1, 4, 1, 2), storage = [0, 1, 0, 1, 0, 1, 0, 1]\<rparr>"

definition example_anchors :: "boxlist list" where
  "example_anchors = [BoxList [Box 0 0 4 4, Box 10 10 14 14] (20, 20)]"

text \<open>
  A level of one image with a single anchor that lies outside the image, with logit \<open>0\<close>
  and zero deltas.
\<close>

definition example_outside_anchors :: "boxlist list" where
  "example_outside_anchors = [BoxList [Box (- 5) (- 5) (- 1) (- 1)] (20, 20)]"

definition example_objectness1 :: tensor where
  "example_objectness1 = \<lparr>shape = (1, 1, 1, 1), storage = [0]\<rparr>"

definition example_box_regression1 :: tensor where
  "example_box_regression1 = \<lparr>shape = (1, 4, 1, 1), storage = [0, 0, 0, 0]\<rparr>"

section \<open>Properties\<close>

subsection \<open>Loops that can raise\<close>

lemma mapM_eq_Some: "mapM f xs = Some ys \<longleftrightarrow> list_all2 (\<lambda>x y. f x = Some y) xs ys"
proof (induction xs arbitrary: ys)
  case Nil
  then show ?case by auto
next
  case (Cons x xs)
  then show ?case
    by (cases ys) (auto simp: bind_eq_Some_conv)
qed

lemma mapM_length: "mapM f xs = Some ys \<Longrightarrow> length ys = length xs"
  by (simp add: mapM_eq_Some list_all2_lengthD)

lemma mapM_nth: "mapM f xs = Some ys \<Longrightarrow> i < length xs \<Longrightarrow> f (xs ! i) = Some (ys ! i)"
  using list_all2_nthD [of "\<lambda>x y. f x = Some y" xs ys i] by (simp add: mapM_eq_Some)

lemma mapM_map_Some: "(\<And>x. x \<in> set xs \<Longrightarrow> f x = Some (g x)) \<Longrightarrow> mapM f xs = Some (map g xs)"
  by (induction xs) auto

subsection \<open>\<^verbatim>\<open>topk\<close> selects the highest scores\<close>

lemma argsort_desc_length: "length (argsort_desc xs) = length xs"
  by (simp add: argsort_desc_def)

lemma argsort_desc_set: "set (argsort_desc xs) = {..<length xs}"
proof -
  have "set (argsort_desc xs) = snd ` set (zip xs [0..<length xs])"
    by (simp add: argsort_desc_def)
  also have "\<dots> = set (map snd (zip xs [0..<length xs]))" by (simp only: set_map)
  also have "map snd (zip xs [0..<length xs]) = [0..<length xs]" by simp
  also have "set [0..<length xs] = {..<length xs}" by auto
  finally show ?thesis .
qed

lemma argsort_desc_distinct: "distinct (argsort_desc xs)"
  by (rule card_distinct) (simp add: argsort_desc_set argsort_desc_length)

lemma argsort_desc_sorted: "sorted (map (\<lambda>i. - xs ! i) (argsort_desc xs))"
proof -
  let ?S = "sort_key (\<lambda>p. - fst p) (zip xs [0..<length xs])"
  have "\<forall>p \<in> set ?S. fst p = xs ! snd p"
    by (auto simp: set_zip)
  then have "map (\<lambda>i. - xs ! i) (map snd ?S) = map (\<lambda>p. - fst p) ?S"
    by simp
  then show ?thesis
    by (simp add: argsort_desc_def del: map_map)
qed

lemma argsort_desc_dominates:
  assumes "j \<in> set (take k (argsort_desc xs))" "i < length xs" "i \<notin> set (take k (argsort_desc xs))"
  shows "xs ! i \<le> xs ! j"
proof -
  let ?S = "argsort_desc xs"
  have "i \<in> set ?S" using assms(2) by (simp add: argsort_desc_set)
  then have "i \<in> set (take k ?S) \<union> set (drop k ?S)"
    by (simp only: set_append [symmetric] append_take_drop_id)
  then have i: "i \<in> set (drop k ?S)" using assms(3) by simp
  have "sorted (map (\<lambda>i. - xs ! i) (take k ?S) @ map (\<lambda>i. - xs ! i) (drop k ?S))"
    using argsort_desc_sorted [of xs] by (simp only: map_append [symmetric] append_take_drop_id)
  then have "\<forall>a \<in> set (take k ?S). \<forall>b \<in> set (drop k ?S). - xs ! a \<le> - xs ! b"
    unfolding sorted_append by simp
  with assms(1) i show ?thesis by auto
qed

lemma topk_SomeD:
  assumes "topk xs k = Some (vs, idx)"
  shows "0 \<le> k" "k \<le> int (length xs)" "vs = map (\<lambda>i. xs ! i) idx" "is_topk xs (nat k) idx"
proof -
  from assms show k: "0 \<le> k" "k \<le> int (length xs)"
    and idx: "vs = map (\<lambda>i. xs ! i) idx"
    by (auto simp: topk_def Let_def split: if_splits)
  from assms have i: "idx = take (nat k) (argsort_desc xs)"
    by (auto simp: topk_def Let_def split: if_splits)
  have "sorted (map (\<lambda>i. - xs ! i) (take (nat k) (argsort_desc xs)))"
    using argsort_desc_sorted [of xs] by (simp only: take_map [symmetric] sorted_wrt_take)
  then have s: "sorted_wrt (\<lambda>a b. xs ! b \<le> xs ! a) idx"
    by (simp add: i sorted_map)
  have sub: "set idx \<subseteq> {..<length xs}"
    using set_take_subset [of "nat k" "argsort_desc xs"] by (simp add: i argsort_desc_set)
  show "is_topk xs (nat k) idx"
    unfolding is_topk_def list_all_iff
    using k s sub argsort_desc_dominates [of _ "nat k" xs]
    by (auto simp: i argsort_desc_length argsort_desc_distinct)
qed

lemma topk_Some:
  assumes "0 \<le> k" "k \<le> int (length xs)"
  shows "\<exists>idx. topk xs k = Some (map (\<lambda>i. xs ! i) idx, idx)"
  using assms by (simp add: topk_def Let_def)

lemma is_topk_bound: "is_topk xs k idx \<Longrightarrow> set idx \<subseteq> {..<length xs}"
  by (auto simp: is_topk_def list_all_iff)

subsection \<open>Indexing a well-formed box list\<close>

lemma get_field_length: "well_formed bl \<Longrightarrow> get_field bl name = Some v \<Longrightarrow> length v = len bl"
  by (auto simp: well_formed_def get_field_def list_all_iff dest: map_of_SomeD)

lemma index_select_Some: "set idx \<subseteq> {..<length xs} \<Longrightarrow> index_select xs idx = Some (map (\<lambda>i. xs ! i) idx)"
  by (auto simp: index_select_def list_all_iff)

lemma getitem_well_formed:
  assumes "well_formed bl" "set idx \<subseteq> {..<len bl}"
  shows "getitem bl idx = Some \<lparr>bbox = map (\<lambda>i. bbox bl ! i) idx, im_size = im_size bl,
           extra_fields = map (\<lambda>(name, v). (name, map (\<lambda>i. v ! i) idx)) (extra_fields bl)\<rparr>"
proof -
  have "mapM (\<lambda>(name, v). map_option (Pair name) (index_select v idx)) (extra_fields bl)
        = Some (map (\<lambda>(name, v). (name, map (\<lambda>i. v ! i) idx)) (extra_fields bl))"
    using assms by (intro mapM_map_Some) (auto simp: well_formed_def list_all_iff index_select_Some)
  then show ?thesis
    using assms(2) by (simp add: getitem_def index_select_Some len_def)
qed

lemma get_field_map_fields:
  "get_field \<lparr>bbox = b, im_size = s, extra_fields = map (\<lambda>(name, v). (name, f v)) fs\<rparr> name
     = map_option f (map_of fs name)"
  by (induction fs) (auto simp: get_field_def)

lemma getitem_mask_well_formed:
  assumes "well_formed bl" "length keep = len bl"
  shows "getitem_mask bl keep = Some \<lparr>bbox = map fst (filter snd (zip (bbox bl) keep)), im_size = im_size bl,
           extra_fields = map (\<lambda>(name, v). (name, map fst (filter snd (zip v keep)))) (extra_fields bl)\<rparr>"
proof -
  have "mapM (\<lambda>(name, v). map_option (Pair name) (mask_select v keep)) (extra_fields bl)
        = Some (map (\<lambda>(name, v). (name, map fst (filter snd (zip v keep)))) (extra_fields bl))"
    using assms by (intro mapM_map_Some) (auto simp: well_formed_def list_all_iff mask_select_def)
  then show ?thesis
    using assms(2) by (simp add: getitem_mask_def mask_select_def len_def)
qed

subsection \<open>The example box list\<close>

lemma example_boxlist_ok:
  "well_formed example_boxlist \<and> get_field example_boxlist ''objectness'' \<noteq> None"
  by (simp add: well_formed_def example_boxlist_def get_field_def len_def)

lemma example_boxlist_scores:
  "get_field example_boxlist ''objectness'' = Some [9 / 10, 8 / 10, 95 / 100, 2 / 10]"
  by (simp add: example_boxlist_def get_field_def)

subsection \<open>The final selection, per image\<close>

lemma select_over_all_levels_per_image:
  "\<not> (training self \<and> fpn_post_nms_per_batch self) \<Longrightarrow>
   select_over_all_levels self boxlists = mapM (select_image (fpn_post_nms_top_n self)) boxlists"
  unfolding select_over_all_levels_def select_image_def by auto

lemma select_image_well_formed:
  assumes "well_formed bl" "get_field bl ''objectness'' = Some scores" "0 \<le> cap"
  shows "\<exists>idx. is_topk scores (min (nat cap) (length scores)) idx \<and>
           select_image cap bl = Some \<lparr>bbox = map (\<lambda>i. bbox bl ! i) idx, im_size = im_size bl,
             extra_fields = map (\<lambda>(name, v). (name, map (\<lambda>i. v ! i) idx)) (extra_fields bl)\<rparr>"
proof -
  let ?k = "min cap (int (length scores))"
  have k: "0 \<le> ?k" "?k \<le> int (length scores)" using assms(3) by auto
  from topk_Some [OF k] obtain idx where t: "topk scores ?k = Some (map (\<lambda>i. scores ! i) idx, idx)"
    by blast
  have top: "is_topk scores (nat ?k) idx" by (rule topk_SomeD(4) [OF t])
  have n: "nat ?k = min (nat cap) (length scores)" using assms(3) by auto
  have "set idx \<subseteq> {..<len bl}"
    using is_topk_bound [OF top] get_field_length [OF assms(1,2)] by simp
  from getitem_well_formed [OF assms(1) this] top show ?thesis
    by (intro exI [of _ idx]) (simp add: select_image_def assms(2) t n)
qed

lemma select_per_image_wf:
  assumes mode: "\<not> (training self \<and> fpn_post_nms_per_batch self)"
      and cap: "0 \<le> fpn_post_nms_top_n self"
      and wf: "\<forall>bl \<in> set boxlists. well_formed bl \<and> get_field bl ''objectness'' \<noteq> None"
  shows "\<exists>out. select_over_all_levels self boxlists = Some out \<and> length out = length boxlists \<and>
          (\<forall>i<length boxlists. \<exists>scores idx.
              get_field (boxlists ! i) ''objectness'' = Some scores \<and>
              is_topk scores (min (nat (fpn_post_nms_top_n self)) (length scores)) idx \<and>
              bbox (out ! i) = map (\<lambda>j. bbox (boxlists ! i) ! j) idx \<and>
              get_field (out ! i) ''objectness'' = Some (map (\<lambda>j. scores ! j) idx) \<and>
              select_over_all_levels self [boxlists ! i] = Some [out ! i])"
proof -
  let ?cap = "fpn_post_nms_top_n self"
  have ex: "\<exists>r. select_image ?cap bl = Some r" if "bl \<in> set boxlists" for bl
    using that wf select_image_well_formed [OF _ _ cap, of bl] by fastforce
  have "mapM (select_image ?cap) boxlists = Some (map (\<lambda>bl. the (select_image ?cap bl)) boxlists)"
    by (rule mapM_map_Some) (use ex in force)
  then have out: "select_over_all_levels self boxlists = Some (map (\<lambda>bl. the (select_image ?cap bl)) boxlists)"
    by (simp add: select_over_all_levels_per_image [OF mode])
  have "\<exists>scores idx.
              get_field (boxlists ! i) ''objectness'' = Some scores \<and>
              is_topk scores (min (nat ?cap) (length scores)) idx \<and>
              bbox (the (select_image ?cap (boxlists ! i))) = map (\<lambda>j. bbox (boxlists ! i) ! j) idx \<and>
              get_field (the (select_image ?cap (boxlists ! i))) ''objectness'' = Some (map (\<lambda>j. scores ! j) idx) \<and>
              select_over_all_levels self [boxlists ! i] = Some [the (select_image ?cap (boxlists ! i))]"
    if i: "i < length boxlists" for i
  proof -
    let ?bl = "boxlists ! i"
    from i wf have w: "well_formed ?bl" and "get_field ?bl ''objectness'' \<noteq> None" by auto
    then obtain scores where sc: "get_field ?bl ''objectness'' = Some scores" by blast
    from select_image_well_formed [OF w sc cap] obtain idx where
      top: "is_topk scores (min (nat ?cap) (length scores)) idx" and
      r: "select_image ?cap ?bl = Some \<lparr>bbox = map (\<lambda>i. bbox ?bl ! i) idx, im_size = im_size ?bl,
             extra_fields = map (\<lambda>(name, v). (name, map (\<lambda>i. v ! i) idx)) (extra_fields ?bl)\<rparr>"
      by blast
    have "map_of (extra_fields ?bl) ''objectness'' = Some scores"
      using sc by (simp add: get_field_def)
    then show ?thesis
      using sc top
      by (intro exI [of _ scores] exI [of _ idx])
         (simp add: r get_field_map_fields select_over_all_levels_per_image [OF mode])
  qed
  with out show ?thesis by simp
qed

text \<open>
  Claim C3. Outside the per-batch mode (not training, or the flag \<open>fpn_post_nms_per_batch\<close>
  off), \<^verbatim>\<open>select_over_all_levels\<close> succeeds on well-formed box lists that carry scores, and
  selects for each image the top \<open>min(fpn_post_nms_top_n, n)\<close> of its \<open>n\<close> proposals by
  score, highest first. The result for image \<open>i\<close> is the result of the call on that image
  alone: no other image is read.
\<close>

theorem per_image_selection:
  assumes mode: "\<not> (training self \<and> fpn_post_nms_per_batch self)"
      and cap: "0 \<le> fpn_post_nms_top_n self"
      and wf: "\<forall>bl \<in> set boxlists. well_formed bl \<and> get_field bl ''objectness'' \<noteq> None"
  shows "\<exists>out. select_over_all_levels self boxlists = Some out \<and> length out = length boxlists \<and>
          (\<forall>i<length boxlists. \<exists>scores idx.
              get_field (boxlists ! i) ''objectness'' = Some scores \<and>
              is_topk scores (min (nat (fpn_post_nms_top_n self)) (length scores)) idx \<and>
              bbox (out ! i) = map (\<lambda>j. bbox (boxlists ! i) ! j) idx \<and>
              get_field (out ! i) ''objectness'' = Some (map (\<lambda>j. scores ! j) idx) \<and>
              select_over_all_levels self [boxlists ! i] = Some [out ! i])"
  by (rule select_per_image_wf [OF mode cap wf])

theorem per_image_selection_witness:
  "\<not> (training example_processor \<and> fpn_post_nms_per_batch example_processor) \<and>
   0 \<le> fpn_post_nms_top_n example_processor \<and>
   well_formed example_boxlist \<and> get_field example_boxlist ''objectness'' \<noteq> None \<and>
   (\<exists>out idx. select_over_all_levels example_processor [example_boxlist] = Some out \<and>
      length out = 1 \<and> is_topk [9 / 10, 8 / 10, 95 / 100, 2 / 10] 3 idx \<and>
      bbox (out ! 0) = map (\<lambda>j. bbox example_boxlist ! j) idx)"
proof -
  have mode: "\<not> (training example_processor \<and> fpn_post_nms_per_batch example_processor)"
    and cap: "0 \<le> fpn_post_nms_top_n example_processor"
    and wf: "\<forall>bl \<in> set [example_boxlist]. well_formed bl \<and> get_field bl ''objectness'' \<noteq> None"
    using example_boxlist_ok by (simp_all add: example_processor_def)
  from per_image_selection [OF mode cap wf] obtain out where
    out: "select_over_all_levels example_processor [example_boxlist] = Some out" "length out = 1"
    and sel: "\<exists>scores idx. get_field ([example_boxlist] ! 0) ''objectness'' = Some scores \<and>
           is_topk scores (min (nat (fpn_post_nms_top_n example_processor)) (length scores)) idx \<and>
           bbox (out ! 0) = map (\<lambda>j. bbox ([example_boxlist] ! 0) ! j) idx"
    by fastforce
  have three: "min (nat (fpn_post_nms_top_n example_processor)) (length [9 / 10, 8 / 10, 95 / 100, 2 / 10 :: real]) = 3"
    by (simp add: example_processor_def)
  from sel obtain idx where "is_topk [9 / 10, 8 / 10, 95 / 100, 2 / 10] 3 idx"
    "bbox (out ! 0) = map (\<lambda>j. bbox example_boxlist ! j) idx"
    unfolding nth_Cons_0 example_boxlist_scores using three by auto
  with out mode cap example_boxlist_ok show ?thesis by blast
qed

subsection \<open>The constructor\<close>

text \<open>
  Claim C9, as stated: a negative \<open>min_size\<close> or an \<open>nms_thresh\<close> outside \<open>[0, 1]\<close> is
  rejected by the constructor. It is not: with \<open>min_size = -1\<close> and \<open>nms_thresh = 2\<close> the
  constructor returns a processor that holds both values.
\<close>

theorem init_rejects_counterexample:
  "RPNPostProcessor_init example_coder 4 2 2 (- 1) None None True =
     Some \<lparr>pre_nms_top_n = 4, post_nms_top_n = 2, nms_thresh = 2, min_size = - 1,
           box_coder = example_coder, fpn_post_nms_top_n = 2, fpn_post_nms_per_batch = True,
           training = True\<rparr>"
  by (simp add: RPNPostProcessor_init_def)

text \<open>
  Claim C9, amended. The constructor validates nothing: it never fails, and it stores
  \<open>min_size\<close> and \<open>nms_thresh\<close> as given, whatever their values.
\<close>

theorem init_accepts_every_value:
  "\<exists>self. RPNPostProcessor_init BoxCoder_default pre post thresh ms coder fpn_post per_batch = Some self \<and>
      min_size self = ms \<and> nms_thresh self = thresh \<and>
      pre_nms_top_n self = pre \<and> post_nms_top_n self = post"
  by (simp add: RPNPostProcessor_init_def)

theorem init_accepts_every_value_witness:
  "\<exists>self. RPNPostProcessor_init example_coder 4 2 (- 3) (- 1) None None True = Some self \<and>
      min_size self = - 1 \<and> nms_thresh self = - 3"
  using init_accepts_every_value [of example_coder 4 2 "- 3" "- 1" None None True]
  by auto

subsection \<open>The final selection, per batch\<close>

lemma split_sizes_Some:
  "sum_list ns = length xs \<Longrightarrow>
   \<exists>yss. split_sizes xs ns = Some yss \<and> concat yss = xs \<and> map length yss = ns"
proof (induction ns arbitrary: xs)
  case Nil
  then show ?case by simp
next
  case (Cons n ns)
  then have "sum_list ns = length (drop n xs)" by simp
  from Cons.IH [OF this] obtain yss where
    "split_sizes (drop n xs) ns = Some yss" "concat yss = drop n xs" "map length yss = ns"
    by blast
  with Cons.prems show ?case by auto
qed

lemma topk_mask:
  assumes "is_topk xs k idx"
  shows "is_topk_mask xs k (map (\<lambda>j. j \<in> set idx) [0..<length xs])"
proof -
  have sub: "set idx \<subseteq> {..<length xs}" by (rule is_topk_bound [OF assms])
  have "length (filter id (map (\<lambda>j. j \<in> set idx) [0..<length xs]))
        = length (filter (\<lambda>j. j \<in> set idx) [0..<length xs])"
    by (simp add: filter_map comp_def)
  also have "\<dots> = card ({j. j \<in> set idx} \<inter> set [0..<length xs])"
    by (rule distinct_length_filter) simp
  also have "{j. j \<in> set idx} \<inter> set [0..<length xs] = set idx" using sub by auto
  also have "card (set idx) = k"
    using assms by (simp add: is_topk_def distinct_card)
  finally have count: "length (filter id (map (\<lambda>j. j \<in> set idx) [0..<length xs])) = k" .
  have dom: "xs ! i \<le> xs ! j" if "i < length xs" "i \<notin> set idx" "j \<in> set idx" for i j
    using assms that by (auto simp: is_topk_def list_all_iff)
  show ?thesis
    unfolding is_topk_mask_def list_all_iff using count dom by auto
qed

lemma select_per_batch_wf:
  assumes mode: "training self" "fpn_post_nms_per_batch self"
      and cap: "0 \<le> fpn_post_nms_top_n self"
      and ne: "boxlists \<noteq> []"
      and wf: "\<forall>bl \<in> set boxlists. well_formed bl \<and> get_field bl ''objectness'' \<noteq> None"
  shows "\<exists>out objs keep.
      select_over_all_levels self boxlists = Some out \<and>
      length out = length boxlists \<and> length objs = length boxlists \<and>
      length keep = length boxlists \<and>
      is_topk_mask (concat objs) (min (nat (fpn_post_nms_top_n self)) (length (concat objs)))
        (concat keep) \<and>
      (\<forall>i<length boxlists.
          get_field (boxlists ! i) ''objectness'' = Some (objs ! i) \<and>
          length (keep ! i) = length (objs ! i) \<and>
          bbox (out ! i) = map fst (filter snd (zip (bbox (boxlists ! i)) (keep ! i))) \<and>
          get_field (out ! i) ''objectness'' = Some (map fst (filter snd (zip (objs ! i) (keep ! i)))))"
proof -
  define objs where "objs = map (\<lambda>bl. the (get_field bl ''objectness'')) boxlists"
  define pooled where "pooled = concat objs"
  define k where "k = min (fpn_post_nms_top_n self) (int (length pooled))"
  define sel :: "boxlist \<times> bool list \<Rightarrow> boxlist" where "sel = (\<lambda>(bl, keep).
     \<lparr>bbox = map fst (filter snd (zip (bbox bl) keep)), im_size = im_size bl,
      extra_fields = map (\<lambda>(name, v). (name, map fst (filter snd (zip v keep)))) (extra_fields bl)\<rparr>)"
  have get: "get_field bl ''objectness'' = Some (the (get_field bl ''objectness''))"
    if "bl \<in> set boxlists" for bl using wf that by auto
  have m1: "mapM (\<lambda>boxlist. get_field boxlist ''objectness'') boxlists = Some objs"
    unfolding objs_def by (rule mapM_map_Some) (rule get)
  have m2: "torch_cat objs = Some pooled"
    using ne by (simp add: torch_cat_def objs_def pooled_def)
  have lens: "map len boxlists = map length objs"
    using wf get get_field_length by (auto simp: objs_def)
  have kb: "0 \<le> k" "k \<le> int (length pooled)" using cap by (auto simp: k_def)
  from topk_Some [OF kb] obtain idx where
    t: "topk pooled k = Some (map (\<lambda>i. pooled ! i) idx, idx)" by blast
  have top: "is_topk pooled (nat k) idx" by (rule topk_SomeD(4) [OF t])
  have nk: "nat k = min (nat (fpn_post_nms_top_n self)) (length pooled)"
    using cap by (auto simp: k_def)
  define msk where "msk = map (\<lambda>j. j \<in> set idx) [0..<length pooled]"
  have tm: "is_topk_mask pooled (nat k) msk"
    unfolding msk_def by (rule topk_mask [OF top])
  have "sum_list (map len boxlists) = length msk"
    by (simp add: lens msk_def pooled_def length_concat)
  from split_sizes_Some [OF this] obtain keep where
    sp: "split_sizes msk (map len boxlists) = Some keep"
    and ck: "concat keep = msk" and lk: "map length keep = map len boxlists"
    by blast
  have len_keep: "length keep = length boxlists"
    using arg_cong [OF lk, of length] by simp
  have lki: "length (keep ! i) = len (boxlists ! i)" if "i < length boxlists" for i
    using arg_cong [OF lk, of "\<lambda>l. l ! i"] that len_keep by simp
  have m3: "mapM (\<lambda>(boxlist, keep). getitem_mask boxlist keep) (zip boxlists keep)
            = Some (map sel (zip boxlists keep))"
  proof (rule mapM_map_Some)
    fix p assume "p \<in> set (zip boxlists keep)"
    then obtain i where i: "i < length boxlists" "p = (boxlists ! i, keep ! i)"
      by (auto simp: set_zip)
    with wf have "well_formed (boxlists ! i)" by auto
    from getitem_mask_well_formed [OF this lki [OF i(1)]]
    show "(case p of (boxlist, keep) \<Rightarrow> getitem_mask boxlist keep) = Some (sel p)"
      by (simp add: i(2) sel_def)
  qed
  have out: "select_over_all_levels self boxlists = Some (map sel (zip boxlists keep))"
    unfolding select_over_all_levels_def
    using mode m1 m2 t sp m3 by (simp add: k_def msk_def)
  have per: "get_field (boxlists ! i) ''objectness'' = Some (objs ! i) \<and>
          length (keep ! i) = length (objs ! i) \<and>
          bbox (map sel (zip boxlists keep) ! i)
            = map fst (filter snd (zip (bbox (boxlists ! i)) (keep ! i))) \<and>
          get_field (map sel (zip boxlists keep) ! i) ''objectness''
            = Some (map fst (filter snd (zip (objs ! i) (keep ! i))))"
    if i: "i < length boxlists" for i
  proof -
    have g: "get_field (boxlists ! i) ''objectness'' = Some (objs ! i)"
      using get [of "boxlists ! i"] i by (simp add: objs_def)
    then have "map_of (extra_fields (boxlists ! i)) ''objectness'' = Some (objs ! i)"
      by (simp add: get_field_def)
    moreover have "length (keep ! i) = length (objs ! i)"
      using lki [OF i] arg_cong [OF lens, of "\<lambda>l. l ! i"] i by (simp add: objs_def)
    ultimately show ?thesis
      using i len_keep g by (simp add: sel_def get_field_map_fields)
  qed
  have tm': "is_topk_mask (concat objs)
      (min (nat (fpn_post_nms_top_n self)) (length (concat objs))) (concat keep)"
    using tm by (simp add: ck nk pooled_def)
  have lo: "length objs = length boxlists" by (simp add: objs_def)
  show ?thesis
    using out len_keep tm' lo per
    by (intro exI [of _ "map sel (zip boxlists keep)"] exI [of _ objs] exI [of _ keep]) simp
qed

text \<open>
  Claim C2. In training mode with \<open>fpn_post_nms_per_batch\<close> set,
  \<^verbatim>\<open>select_over_all_levels\<close> succeeds on a non-empty batch of well-formed box lists that
  carry scores; it pools the scores of all images (\<open>concat objs\<close>), marks the top
  \<open>min(fpn_post_nms_top_n, total)\<close> of the pool (\<open>concat keep\<close>), and image \<open>i\<close> keeps
  exactly its proposals at the marked positions of its own segment \<open>keep ! i\<close>, in their
  original relative order.
\<close>

theorem per_batch_selection:
  assumes mode: "training self" "fpn_post_nms_per_batch self"
      and cap: "0 \<le> fpn_post_nms_top_n self"
      and ne: "boxlists \<noteq> []"
      and wf: "\<forall>bl \<in> set boxlists. well_formed bl \<and> get_field bl ''objectness'' \<noteq> None"
  shows "\<exists>out objs keep.
      select_over_all_levels self boxlists = Some out \<and>
      length out = length boxlists \<and> length objs = length boxlists \<and>
      length keep = length boxlists \<and>
      is_topk_mask (concat objs) (min (nat (fpn_post_nms_top_n self)) (length (concat objs)))
        (concat keep) \<and>
      (\<forall>i<length boxlists.
          get_field (boxlists ! i) ''objectness'' = Some (objs ! i) \<and>
          length (keep ! i) = length (objs ! i) \<and>
          bbox (out ! i) = map fst (filter snd (zip (bbox (boxlists ! i)) (keep ! i))) \<and>
          get_field (out ! i) ''objectness'' = Some (map fst (filter snd (zip (objs ! i) (keep ! i)))))"
  by (rule select_per_batch_wf [OF mode cap ne wf])

theorem per_batch_selection_witness:
  "training example_training_processor \<and> fpn_post_nms_per_batch example_training_processor \<and>
   0 \<le> fpn_post_nms_top_n example_training_processor \<and>
   well_formed example_boxlist \<and> get_field example_boxlist ''objectness'' \<noteq> None \<and>
   (\<exists>out keep. select_over_all_levels example_training_processor [example_boxlist, example_boxlist] = Some out \<and>
      length out = 2 \<and> length keep = 2 \<and>
      is_topk_mask ([9 / 10, 8 / 10, 95 / 100, 2 / 10] @ [9 / 10, 8 / 10, 95 / 100, 2 / 10]) 3 (concat keep) \<and>
      bbox (out ! 0) = map fst (filter snd (zip (bbox example_boxlist) (keep ! 0))) \<and>
      bbox (out ! 1) = map fst (filter snd (zip (bbox example_boxlist) (keep ! 1))))"
proof -
  let ?P = example_training_processor
  let ?bls = "[example_boxlist, example_boxlist]"
  have mode: "training ?P" "fpn_post_nms_per_batch ?P"
    and cap: "0 \<le> fpn_post_nms_top_n ?P"
    and ne: "?bls \<noteq> []"
    and wf: "\<forall>bl \<in> set ?bls. well_formed bl \<and> get_field bl ''objectness'' \<noteq> None"
    using example_boxlist_ok by (simp_all add: example_training_processor_def example_processor_def)
  from per_batch_selection [OF mode cap ne wf] obtain out objs keep where
    out: "select_over_all_levels ?P ?bls = Some out" "length out = length ?bls"
      "length objs = length ?bls" "length keep = length ?bls"
    and tm: "is_topk_mask (concat objs) (min (nat (fpn_post_nms_top_n ?P)) (length (concat objs)))
        (concat keep)"
    and per: "\<forall>i<length ?bls.
          get_field (?bls ! i) ''objectness'' = Some (objs ! i) \<and>
          length (keep ! i) = length (objs ! i) \<and>
          bbox (out ! i) = map fst (filter snd (zip (bbox (?bls ! i)) (keep ! i))) \<and>
          get_field (out ! i) ''objectness'' = Some (map fst (filter snd (zip (objs ! i) (keep ! i))))"
    by blast
  from per [rule_format, of 0] per [rule_format, of 1]
  have o0: "objs ! 0 = [9 / 10, 8 / 10, 95 / 100, 2 / 10]" and o1: "objs ! 1 = [9 / 10, 8 / 10, 95 / 100, 2 / 10]"
    and b0: "bbox (out ! 0) = map fst (filter snd (zip (bbox example_boxlist) (keep ! 0)))"
    and b1: "bbox (out ! 1) = map fst (filter snd (zip (bbox example_boxlist) (keep ! 1)))"
    by (simp_all add: example_boxlist_scores)
  have "objs = [objs ! 0, objs ! 1]"
    using out(3) by (cases objs; cases "tl objs") auto
  then have co: "concat objs = [9 / 10, 8 / 10, 95 / 100, 2 / 10] @ [9 / 10, 8 / 10, 95 / 100, 2 / 10]"
    using o0 o1 by (metis append_Nil2 concat.simps)
  have "min (nat (fpn_post_nms_top_n ?P)) (length (concat objs)) = 3"
    unfolding co by (simp add: example_training_processor_def example_processor_def)
  with tm have "is_topk_mask ([9 / 10, 8 / 10, 95 / 100, 2 / 10] @ [9 / 10, 8 / 10, 95 / 100, 2 / 10]) 3 (concat keep)"
    unfolding co by simp
  moreover have "length out = 2" "length keep = 2" using out by simp_all
  ultimately show ?thesis
    using out(1) b0 b1 mode cap example_boxlist_ok by blast
qed

subsection \<open>The default of the cross-level limit\<close>

text \<open>
  Claim C10. Constructed with \<open>fpn_post_nms_top_n = None\<close>, the processor is the one
  constructed with \<open>fpn_post_nms_top_n = post_nms_top_n\<close>, and every later call of
  \<^verbatim>\<open>select_over_all_levels\<close>, in training or evaluation mode, caps with \<open>post_nms_top_n\<close>:
  per batch it keeps the top \<open>min(post_nms_top_n, total)\<close> of the pooled proposals, per image
  the top \<open>min(post_nms_top_n, n)\<close> of each image's \<open>n\<close> proposals.
\<close>

theorem fpn_post_nms_top_n_default:
  assumes cap: "0 \<le> post" and ne: "boxlists \<noteq> []"
      and wf: "\<forall>bl \<in> set boxlists. well_formed bl \<and> get_field bl ''objectness'' \<noteq> None"
  shows "\<exists>self out.
      RPNPostProcessor_init BoxCoder_default pre post thresh ms coder None per_batch = Some self \<and>
      RPNPostProcessor_init BoxCoder_default pre post thresh ms coder (Some post) per_batch = Some self \<and>
      fpn_post_nms_top_n self = post \<and> post_nms_top_n self = post \<and>
      select_over_all_levels (self\<lparr>training := t\<rparr>) boxlists = Some out \<and>
      length out = length boxlists \<and>
      (if t \<and> per_batch
       then \<exists>objs keep.
              length objs = length boxlists \<and> length keep = length boxlists \<and>
              is_topk_mask (concat objs) (min (nat post) (length (concat objs))) (concat keep) \<and>
              (\<forall>i<length boxlists.
                  get_field (boxlists ! i) ''objectness'' = Some (objs ! i) \<and>
                  length (keep ! i) = length (objs ! i) \<and>
                  bbox (out ! i) = map fst (filter snd (zip (bbox (boxlists ! i)) (keep ! i))) \<and>
                  get_field (out ! i) ''objectness''
                    = Some (map fst (filter snd (zip (objs ! i) (keep ! i)))))
       else \<forall>i<length boxlists. \<exists>scores idx.
              get_field (boxlists ! i) ''objectness'' = Some scores \<and>
              is_topk scores (min (nat post) (length scores)) idx \<and>
              bbox (out ! i) = map (\<lambda>j. bbox (boxlists ! i) ! j) idx \<and>
              get_field (out ! i) ''objectness'' = Some (map (\<lambda>j. scores ! j) idx))"
proof -
  define self where "self =
    \<lparr>pre_nms_top_n = pre, post_nms_top_n = post, nms_thresh = thresh, min_size = ms,
     box_coder = (case coder of None \<Rightarrow> BoxCoder_default | Some c \<Rightarrow> c),
     fpn_post_nms_top_n = post, fpn_post_nms_per_batch = per_batch, training = True\<rparr>"
  have i: "RPNPostProcessor_init BoxCoder_default pre post thresh ms coder None per_batch = Some self"
    "RPNPostProcessor_init BoxCoder_default pre post thresh ms coder (Some post) per_batch = Some self"
    "fpn_post_nms_top_n self = post" "post_nms_top_n self = post"
    by (simp_all add: RPNPostProcessor_init_def self_def)
  let ?s = "self\<lparr>training := t\<rparr>"
  have f: "training ?s = t" "fpn_post_nms_per_batch ?s = per_batch" "fpn_post_nms_top_n ?s = post"
    by (simp_all add: self_def)
  have c: "0 \<le> fpn_post_nms_top_n ?s" using cap by (simp add: f)
  show ?thesis
  proof (cases "t \<and> per_batch")
    case True
    then have m: "training ?s" "fpn_post_nms_per_batch ?s" by (simp_all add: self_def)
    from select_per_batch_wf [OF m c ne wf] True i show ?thesis
      unfolding f(3) by (rule_tac x = self in exI) auto
  next
    case False
    then have m: "\<not> (training ?s \<and> fpn_post_nms_per_batch ?s)" by (simp add: self_def)
    from select_per_image_wf [OF m c wf] obtain out where
      "select_over_all_levels ?s boxlists = Some out" "length out = length boxlists"
      "\<forall>i<length boxlists. \<exists>scores idx.
              get_field (boxlists ! i) ''objectness'' = Some scores \<and>
              is_topk scores (min (nat post) (length scores)) idx \<and>
              bbox (out ! i) = map (\<lambda>j. bbox (boxlists ! i) ! j) idx \<and>
              get_field (out ! i) ''objectness'' = Some (map (\<lambda>j. scores ! j) idx)"
      unfolding f(3) by blast
    with i show ?thesis
      by (rule_tac x = self in exI, rule_tac x = out in exI) (simp add: if_not_P [OF False])
  qed
qed

theorem fpn_post_nms_top_n_default_witness:
  "(0 :: int) \<le> 3 \<and> [example_boxlist, example_boxlist] \<noteq> [] \<and> well_formed example_boxlist \<and>
   (\<exists>self out keep.
      RPNPostProcessor_init example_coder 4 3 (7 / 10) 0 None None True = Some self \<and>
      training self \<and> fpn_post_nms_per_batch self \<and> fpn_post_nms_top_n self = 3 \<and>
      select_over_all_levels self [example_boxlist, example_boxlist] = Some out \<and>
      length out = 2 \<and>
      is_topk_mask ([9 / 10, 8 / 10, 95 / 100, 2 / 10] @ [9 / 10, 8 / 10, 95 / 100, 2 / 10]) 3
        (concat keep) \<and>
      bbox (out ! 0) = map fst (filter snd (zip (bbox example_boxlist) (keep ! 0))) \<and>
      bbox (out ! 1) = map fst (filter snd (zip (bbox example_boxlist) (keep ! 1))))"
proof -
  let ?bls = "[example_boxlist, example_boxlist]"
  have cap: "(0 :: int) \<le> 3" and ne: "?bls \<noteq> []"
    and wf: "\<forall>bl \<in> set ?bls. well_formed bl \<and> get_field bl ''objectness'' \<noteq> None"
    using example_boxlist_ok by simp_all
  from fpn_post_nms_top_n_default [OF cap ne wf, of example_coder 4 "7 / 10" 0 None True True]
  obtain self out objs keep where
    i: "RPNPostProcessor_init example_coder 4 3 (7 / 10) 0 None None True = Some self"
      "fpn_post_nms_top_n self = 3"
    and out: "select_over_all_levels (self\<lparr>training := True\<rparr>) ?bls = Some out"
      "length out = length ?bls" "length objs = length ?bls"
    and tm: "is_topk_mask (concat objs) (min (nat 3) (length (concat objs))) (concat keep)"
    and per: "\<forall>i<length ?bls.
          get_field (?bls ! i) ''objectness'' = Some (objs ! i) \<and>
          length (keep ! i) = length (objs ! i) \<and>
          bbox (out ! i) = map fst (filter snd (zip (bbox (?bls ! i)) (keep ! i))) \<and>
          get_field (out ! i) ''objectness'' = Some (map fst (filter snd (zip (objs ! i) (keep ! i))))"
    by auto
  from i(1) have tr: "training self" "fpn_post_nms_per_batch self" "self\<lparr>training := True\<rparr> = self"
    by (auto simp: RPNPostProcessor_init_def)
  from per [rule_format, of 0] per [rule_format, of 1]
  have o0: "objs ! 0 = [9 / 10, 8 / 10, 95 / 100, 2 / 10]" and o1: "objs ! 1 = [9 / 10, 8 / 10, 95 / 100, 2 / 10]"
    and b0: "bbox (out ! 0) = map fst (filter snd (zip (bbox example_boxlist) (keep ! 0)))"
    and b1: "bbox (out ! 1) = map fst (filter snd (zip (bbox example_boxlist) (keep ! 1)))"
    by (simp_all add: example_boxlist_scores)
  have "objs = [objs ! 0, objs ! 1]"
    using out(3) by (cases objs; cases "tl objs") auto
  then have co: "concat objs = [9 / 10, 8 / 10, 95 / 100, 2 / 10] @ [9 / 10, 8 / 10, 95 / 100, 2 / 10]"
    using o0 o1 by (metis append_Nil2 concat.simps)
  have k: "min (nat 3) (length ([9 / 10, 8 / 10, 95 / 100, 2 / 10] @ [9 / 10, 8 / 10, 95 / 100, 2 / 10 :: real])) = 3"
    by simp
  from tm have "is_topk_mask ([9 / 10, 8 / 10, 95 / 100, 2 / 10] @ [9 / 10, 8 / 10, 95 / 100, 2 / 10]) 3 (concat keep)"
    by (simp only: co k)
  moreover have "length out = 2" using out(2) by simp
  moreover have "select_over_all_levels self ?bls = Some out" using out(1) tr(3) by simp
  ultimately show ?thesis
    using i tr(1,2) b0 b1 cap ne example_boxlist_ok by blast
qed

subsection \<open>What a successful indexing returns\<close>

lemma mapM_Some_map:
  assumes "mapM f xs = Some ys" "\<And>x y. x \<in> set xs \<Longrightarrow> f x = Some y \<Longrightarrow> y = g x"
  shows "ys = map g xs"
  using assms
proof (induction xs arbitrary: ys)
  case Nil
  then show ?case by simp
next
  case (Cons x xs)
  then show ?case by (auto simp: bind_eq_Some_conv)
qed

lemma mapM_Some_elem:
  "mapM f xs = Some ys \<Longrightarrow> x \<in> set xs \<Longrightarrow> \<exists>y. f x = Some y"
  by (induction xs arbitrary: ys) (auto simp: bind_eq_Some_conv)

lemma length_filter_zip:
  "length xs = length keep \<Longrightarrow> length (filter snd (zip xs keep)) = length (filter id keep)"
  by (induction xs keep rule: list_induct2) auto

lemma index_select_SomeD:
  "index_select xs idx = Some ys \<Longrightarrow> ys = map (\<lambda>i. xs ! i) idx \<and> set idx \<subseteq> {..<length xs}"
  by (auto simp: index_select_def list_all_iff split: if_splits)

lemma mask_select_SomeD:
  "mask_select xs keep = Some ys \<Longrightarrow>
     ys = map fst (filter snd (zip xs keep)) \<and> length keep = length xs"
  by (auto simp: mask_select_def split: if_splits)

lemma getitem_SomeD:
  assumes "getitem bl idx = Some r"
  shows "bbox r = map (\<lambda>i. bbox bl ! i) idx" "set idx \<subseteq> {..<len bl}" "im_size r = im_size bl"
    "extra_fields r = map (\<lambda>(name, v). (name, map (\<lambda>i. v ! i) idx)) (extra_fields bl)"
proof -
  from assms obtain b fs where b: "index_select (bbox bl) idx = Some b"
    and fs: "mapM (\<lambda>(name, v). map_option (Pair name) (index_select v idx)) (extra_fields bl) = Some fs"
    and r: "r = \<lparr>bbox = b, im_size = im_size bl, extra_fields = fs\<rparr>"
    by (auto simp: getitem_def bind_eq_Some_conv)
  from index_select_SomeD [OF b] r show "bbox r = map (\<lambda>i. bbox bl ! i) idx"
    "set idx \<subseteq> {..<len bl}" "im_size r = im_size bl"
    by (simp_all add: len_def)
  have "fs = map (\<lambda>(name, v). (name, map (\<lambda>i. v ! i) idx)) (extra_fields bl)"
    by (rule mapM_Some_map [OF fs]) (auto dest: index_select_SomeD)
  then show "extra_fields r = map (\<lambda>(name, v). (name, map (\<lambda>i. v ! i) idx)) (extra_fields bl)"
    by (simp add: r)
qed

lemma getitem_mask_SomeD:
  assumes "getitem_mask bl keep = Some r"
  shows "bbox r = map fst (filter snd (zip (bbox bl) keep))" "length keep = len bl"
    "im_size r = im_size bl"
    "extra_fields r = map (\<lambda>(name, v). (name, map fst (filter snd (zip v keep)))) (extra_fields bl)"
    "well_formed bl"
proof -
  from assms obtain b fs where b: "mask_select (bbox bl) keep = Some b"
    and fs: "mapM (\<lambda>(name, v). map_option (Pair name) (mask_select v keep)) (extra_fields bl) = Some fs"
    and r: "r = \<lparr>bbox = b, im_size = im_size bl, extra_fields = fs\<rparr>"
    by (auto simp: getitem_mask_def bind_eq_Some_conv)
  from mask_select_SomeD [OF b] r show "bbox r = map fst (filter snd (zip (bbox bl) keep))"
    "length keep = len bl" "im_size r = im_size bl"
    by (simp_all add: len_def)
  have "fs = map (\<lambda>(name, v). (name, map fst (filter snd (zip v keep)))) (extra_fields bl)"
    by (rule mapM_Some_map [OF fs]) (auto dest: mask_select_SomeD)
  then show "extra_fields r = map (\<lambda>(name, v). (name, map fst (filter snd (zip v keep)))) (extra_fields bl)"
    by (simp add: r)
  have "length v = len bl" if "(name, v) \<in> set (extra_fields bl)" for name v
    using mapM_Some_elem [OF fs that] mask_select_SomeD [OF b]
    by (auto simp: len_def dest: mask_select_SomeD)
  then show "well_formed bl"
    by (auto simp: well_formed_def list_all_iff)
qed

lemma scored_getitem:
  assumes "scored bl" "getitem bl idx = Some r"
  shows "scored r"
  using assms(1) getitem_SomeD [OF assms(2)]
  by (auto simp: scored_def well_formed_def len_def list_all_iff comp_def case_prod_unfold)

lemma scored_getitem_mask:
  assumes "scored bl" "getitem_mask bl keep = Some r"
  shows "scored r"
  using assms(1) getitem_mask_SomeD [OF assms(2)]
  by (auto simp: scored_def well_formed_def len_def list_all_iff comp_def case_prod_unfold length_filter_zip)

lemma scored_objectness:
  "scored bl \<Longrightarrow> \<exists>v. extra_fields bl = [(''objectness'', v)] \<and> length v = len bl \<and>
      get_field bl ''objectness'' = Some v"
  by (cases "extra_fields bl") (auto simp: scored_def well_formed_def get_field_def)

subsection \<open>The loop body of \<^verbatim>\<open>forward_for_single_feature_map\<close>\<close>

lemma greedy_nms_subset: "set (greedy_nms t cap cs) \<subseteq> snd ` set cs"
  by (induction t cap cs rule: greedy_nms.induct) auto

lemma clipped_boxlist:
  "clip_to_image (add_field (BoxList p sh) ''objectness'' s) False
     = Some \<lparr>bbox = map (clip_box sh) p, im_size = sh, extra_fields = [(''objectness'', s)]\<rparr>"
  by (simp add: clip_to_image_def add_field_def BoxList_def)

lemma remove_small_boxes_SomeD:
  assumes "remove_small_boxes bl ms = Some r"
  shows "bbox r = filter (\<lambda>b. ms \<le> width b \<and> ms \<le> height b) (bbox bl)"
proof -
  have "map fst (filter snd (zip xs (map (\<lambda>b. \<not> (width b < ms \<or> height b < ms)) xs)))
        = filter (\<lambda>b. ms \<le> width b \<and> ms \<le> height b) xs" for xs
    by (induction xs) (auto simp: not_less)
  with getitem_mask_SomeD(1) [OF assms [unfolded remove_small_boxes_def]] show ?thesis by simp
qed

lemma boxlist_nms_SomeD:
  assumes "boxlist_nms bl t cap name = Some r"
  shows "set (bbox r) \<subseteq> set (bbox bl)" "\<exists>idx. getitem bl idx = Some r"
proof -
  from assms obtain idx where g: "getitem bl idx = Some r"
    by (auto simp: boxlist_nms_def bind_eq_Some_conv)
  then show "\<exists>idx. getitem bl idx = Some r" by blast
  from getitem_SomeD(1,2) [OF g] show "set (bbox r) \<subseteq> set (bbox bl)"
    by (auto simp: len_def)
qed

lemma process_image_SomeD:
  assumes "process_image self p s sh = Some bl"
  shows "scored bl" "im_size bl = sh"
    "\<forall>b \<in> set (bbox bl). min_size self \<le> width b \<and> min_size self \<le> height b"
    "set (bbox bl) \<subseteq> clip_box sh ` set p"
proof -
  let ?c = "\<lparr>bbox = map (clip_box sh) p, im_size = sh, extra_fields = [(''objectness'', s)]\<rparr>"
  from assms obtain r where r: "remove_small_boxes ?c (min_size self) = Some r"
    and n: "boxlist_nms r (nms_thresh self) (post_nms_top_n self) ''objectness'' = Some bl"
    by (auto simp: process_image_def clipped_boxlist bind_eq_Some_conv)
  note m = getitem_mask_SomeD [OF r [unfolded remove_small_boxes_def]]
  from m(5) have "scored ?c"
    by (simp add: scored_def)
  then have sr: "scored r"
    using scored_getitem_mask r [unfolded remove_small_boxes_def] by blast
  from boxlist_nms_SomeD(2) [OF n] obtain idx where g: "getitem r idx = Some bl" by blast
  from scored_getitem [OF sr g] show "scored bl" .
  from getitem_SomeD(3) [OF g] m(3) show "im_size bl = sh" by simp
  from remove_small_boxes_SomeD [OF r] boxlist_nms_SomeD(1) [OF n]
  show "\<forall>b \<in> set (bbox bl). min_size self \<le> width b \<and> min_size self \<le> height b"
    "set (bbox bl) \<subseteq> clip_box sh ` set p"
    by auto
qed

lemma boxlist_nms_Some:
  assumes "scored bl"
  shows "\<exists>r. boxlist_nms bl t cap ''objectness'' = Some r"
proof -
  from scored_objectness [OF assms] obtain v where
    v: "get_field bl ''objectness'' = Some v" "length v = len bl" by blast
  have o: "index_select (bbox bl) (argsort_desc v) = Some (map (\<lambda>i. bbox bl ! i) (argsort_desc v))"
    by (rule index_select_Some) (simp add: argsort_desc_set v(2) len_def)
  let ?keep = "greedy_nms t (nat cap) (zip (map (\<lambda>i. bbox bl ! i) (argsort_desc v)) (argsort_desc v))"
  have "set ?keep \<subseteq> snd ` set (zip (map (\<lambda>i. bbox bl ! i) (argsort_desc v)) (argsort_desc v))"
    by (rule greedy_nms_subset)
  also have "\<dots> \<subseteq> set (argsort_desc v)"
    by (auto dest: set_zip_rightD)
  finally have "set ?keep \<subseteq> {..<len bl}"
    by (simp add: argsort_desc_set v(2))
  from getitem_well_formed [OF _ this] assms show ?thesis
    by (simp add: boxlist_nms_def v(1) o scored_def)
qed

lemma process_image_Some:
  assumes "length s = length p"
  shows "\<exists>bl. process_image self p s sh = Some bl"
proof -
  let ?c = "\<lparr>bbox = map (clip_box sh) p, im_size = sh, extra_fields = [(''objectness'', s)]\<rparr>"
  have c: "scored ?c" using assms by (simp add: scored_def well_formed_def len_def)
  then have "well_formed ?c" by (simp add: scored_def)
  from getitem_mask_well_formed [OF this, of "map (\<lambda>b. \<not> (width b < min_size self \<or> height b < min_size self)) (bbox ?c)"]
  obtain r where r: "remove_small_boxes ?c (min_size self) = Some r"
    by (auto simp: remove_small_boxes_def len_def)
  have "scored r"
    using scored_getitem_mask [OF c] r by (simp add: remove_small_boxes_def)
  from boxlist_nms_Some [OF this] show ?thesis
    by (simp add: process_image_def clipped_boxlist r)
qed

subsection \<open>Flattening, reshaping and gathering\<close>

lemma permute_and_flatten_SomeD:
  assumes "permute_and_flatten layer N A C H W = Some X"
  shows "length X = N" "n < N \<Longrightarrow> length (X ! n) = A * H * W"
    "n < N \<Longrightarrow> j < A * H * W \<Longrightarrow> length (X ! n ! j) = C"
  using assms by (auto simp: permute_and_flatten_def mult_ac split: if_splits)

lemma length_concat_singletons:
  "\<forall>x \<in> set xs. length x = 1 \<Longrightarrow> length (concat xs) = length xs"
  by (induction xs) auto

lemma take_drop_concat:
  "\<forall>xs \<in> set xss. length xs = M \<Longrightarrow> n < length xss \<Longrightarrow>
     take M (drop (n * M) (concat xss)) = xss ! n"
proof (induction xss arbitrary: n)
  case Nil
  then show ?case by simp
next
  case (Cons xs xss)
  show ?case
  proof (cases n)
    case 0
    with Cons.prems show ?thesis by simp
  next
    case (Suc m)
    with Cons show ?thesis by simp
  qed
qed

lemma length_concat_equal:
  "\<forall>xs \<in> set xss. length xs = M \<Longrightarrow> length (concat xss) = length xss * M"
  by (induction xss) auto

lemma reshape_rows_concat:
  assumes "\<forall>xs \<in> set xss. length xs = M" "xss \<noteq> []"
  shows "reshape_rows (length xss) (concat xss) = Some xss"
proof -
  have l: "length (concat xss) = length xss * M" by (rule length_concat_equal [OF assms(1)])
  have d: "length (concat xss) div length xss = M" using assms(2) by (simp add: l)
  have "map (\<lambda>n. take M (drop (n * M) (concat xss))) [0..<length xss] = map (\<lambda>n. xss ! n) [0..<length xss]"
    using take_drop_concat [OF assms(1)] by simp
  also have "\<dots> = xss" by (rule map_nth)
  finally show ?thesis
    using assms(2) unfolding reshape_rows_def d by (simp add: l)
qed

lemma gather_Some:
  assumes "length rows = length idxs"
    "\<And>n. n < length rows \<Longrightarrow> set (idxs ! n) \<subseteq> {..<length (rows ! n)}"
  shows "gather rows idxs = Some (map (\<lambda>(row, idx). map (\<lambda>i. row ! i) idx) (zip rows idxs))"
proof -
  have "mapM (\<lambda>(row, idx). index_select row idx) (zip rows idxs)
        = Some (map (\<lambda>(row, idx). map (\<lambda>i. row ! i) idx) (zip rows idxs))"
  proof (rule mapM_map_Some)
    fix p assume "p \<in> set (zip rows idxs)"
    then obtain n where "n < length rows" "p = (rows ! n, idxs ! n)"
      by (auto simp: set_zip)
    with assms(2) [of n] show "(case p of (row, idx) \<Rightarrow> index_select row idx)
        = Some (case p of (row, idx) \<Rightarrow> map (\<lambda>i. row ! i) idx)"
      by (simp add: index_select_Some)
  qed
  with assms(1) show ?thesis by (simp add: gather_def)
qed

lemma map2_same:
  "map (\<lambda>(d, a). f d a) (zip (map g xs) (map h xs)) = map (\<lambda>j. f (g j) (h j)) xs"
  by (induction xs) auto

lemma nat_min_int: "0 \<le> p \<Longrightarrow> nat (min p (int m)) = min (nat p) m"
  by auto

lemma min_nat_clamp: "int m \<le> p \<Longrightarrow> min (nat p) m = m"
  by auto

lemma select_and_decode_Some:
  assumes sh: "shape objectness = (N, A, H, W)" and N: "0 < N"
    and L: "permute_and_flatten objectness N A 1 H W = Some L"
    and D: "permute_and_flatten box_regression N A 4 H W = Some D"
    and an: "length anchors = N" "\<forall>a \<in> set anchors. len a = A * H * W"
    and pre: "0 \<le> pre_nms_top_n self"
  shows "\<exists>proposals scores.
      select_and_decode self anchors objectness box_regression
        = Some (proposals, scores, map im_size anchors) \<and>
      length proposals = N \<and> length scores = N \<and>
      (\<forall>n<N. \<exists>topk_idx.
          topk (map sigmoid (concat (L ! n))) (min (pre_nms_top_n self) (int (A * H * W)))
            = Some (scores ! n, topk_idx) \<and>
          proposals ! n = map (\<lambda>j. box_coder self (D ! n ! j) (bbox (anchors ! n) ! j)) topk_idx)"
proof -
  define M where "M = A * H * W"
  define k where "k = min (pre_nms_top_n self) (int M)"
  define rows where "rows = map (map sigmoid) (map concat L)"
  define sel where "sel = (\<lambda>row :: real list. take (nat k) (argsort_desc row))"
  define tk where "tk = map (\<lambda>row. (map (\<lambda>i. row ! i) (sel row), sel row)) rows"
  note Ld = permute_and_flatten_SomeD [OF L] and Dd = permute_and_flatten_SomeD [OF D]
  have lrows: "length rows = N" by (simp add: rows_def Ld(1))
  have row: "rows ! n = map sigmoid (concat (L ! n))" if "n < N" for n
    using that by (simp add: rows_def Ld(1))
  have lrow: "length (rows ! n) = M" if "n < N" for n
  proof -
    have "\<forall>x \<in> set (L ! n). length x = 1"
      using Ld(2,3) [OF that] by (auto simp: in_set_conv_nth)
    from length_concat_singletons [OF this] show ?thesis
      using that by (simp add: row Ld(2) M_def)
  qed
  have kb: "0 \<le> k" "k \<le> int M" using pre by (auto simp: k_def)
  have t: "topk (rows ! n) k = Some (tk ! n)" if "n < N" for n
    using that kb lrow [OF that] lrows by (simp add: topk_def tk_def sel_def Let_def)
  have m1: "mapM (\<lambda>row. topk row k) rows = Some tk"
    unfolding tk_def
  proof (rule mapM_map_Some)
    fix r assume "r \<in> set rows"
    then obtain n where "n < N" "r = rows ! n" by (auto simp: in_set_conv_nth lrows)
    with t [of n] lrows show "topk r k = Some (map (\<lambda>i. r ! i) (sel r), sel r)"
      by (simp add: tk_def)
  qed
  have ltk: "length tk = N" by (simp add: tk_def lrows)
  have idx: "set (snd (tk ! n)) \<subseteq> {..<M}" if "n < N" for n
    using is_topk_bound [OF topk_SomeD(4) [of "rows ! n" k "fst (tk ! n)" "snd (tk ! n)"]]
      t [OF that] lrow [OF that] by simp
  have g1: "gather D (map snd tk)
      = Some (map (\<lambda>(row, idx). map (\<lambda>i. row ! i) idx) (zip D (map snd tk)))"
    by (rule gather_Some) (use idx Dd(1,2) ltk in \<open>simp_all add: M_def\<close>)
  have ne: "map bbox anchors \<noteq> []" using N an(1) by auto
  have eq: "\<forall>xs \<in> set (map bbox anchors). length xs = M"
    using an(2) by (simp add: len_def M_def)
  have c: "torch_cat (map bbox anchors) = Some (concat (map bbox anchors))"
    using ne by (simp add: torch_cat_def)
  have rs: "reshape_rows N (concat (map bbox anchors)) = Some (map bbox anchors)"
    using reshape_rows_concat [OF eq ne] an(1) by simp
  have g2: "gather (map bbox anchors) (map snd tk)
      = Some (map (\<lambda>(row, idx). map (\<lambda>i. row ! i) idx) (zip (map bbox anchors) (map snd tk)))"
    by (rule gather_Some) (use idx an ltk in \<open>simp_all add: M_def len_def\<close>)
  define proposals where "proposals =
     map (\<lambda>(ds, as). map (\<lambda>(d, a). box_coder self d a) (zip ds as))
       (zip (map (\<lambda>(row, idx). map (\<lambda>i. row ! i) idx) (zip D (map snd tk)))
            (map (\<lambda>(row, idx). map (\<lambda>i. row ! i) idx) (zip (map bbox anchors) (map snd tk))))"
  have out: "select_and_decode self anchors objectness box_regression
        = Some (proposals, map fst tk, map im_size anchors)"
    unfolding select_and_decode_def sh
    using N L D m1 g1 c rs g2
    by (simp add: rows_def k_def M_def proposals_def Let_def)
  have lp: "length proposals = N" by (simp add: proposals_def Dd(1) ltk an(1))
  have p: "proposals ! n = map (\<lambda>j. box_coder self (D ! n ! j) (bbox (anchors ! n) ! j)) (snd (tk ! n))"
    if "n < N" for n
    using that by (simp add: proposals_def Dd(1) ltk an(1) map2_same)
  have "\<exists>topk_idx.
          topk (map sigmoid (concat (L ! n))) (min (pre_nms_top_n self) (int (A * H * W)))
            = Some (map fst tk ! n, topk_idx) \<and>
          proposals ! n = map (\<lambda>j. box_coder self (D ! n ! j) (bbox (anchors ! n) ! j)) topk_idx"
    if "n < N" for n
    using t [OF that] p [OF that] that ltk
    by (intro exI [of _ "snd (tk ! n)"]) (simp add: row k_def M_def)
  with out lp ltk show ?thesis by auto
qed

lemma forward_for_single_feature_map_Some:
  assumes "select_and_decode self anchors objectness box_regression = Some (proposals, scores, shapes)"
    and "length scores = length proposals"
    and "\<And>n. n < length proposals \<Longrightarrow> length (scores ! n) = length (proposals ! n)"
  shows "\<exists>result. forward_for_single_feature_map self anchors objectness box_regression = Some result \<and>
           length result = min (length proposals) (length shapes)"
proof -
  let ?f = "\<lambda>(proposal, score, im_shape). process_image self proposal score im_shape"
  let ?zs = "zip proposals (zip scores shapes)"
  have "\<exists>bl. ?f z = Some bl" if "z \<in> set ?zs" for z
  proof -
    from that obtain n where "n < length proposals" "z = (proposals ! n, scores ! n, shapes ! n)"
      by (auto simp: set_zip)
    with assms(3) [of n] process_image_Some [of "scores ! n" "proposals ! n" self "shapes ! n"]
    show ?thesis by simp
  qed
  then have "mapM ?f ?zs = Some (map (\<lambda>z. the (?f z)) ?zs)"
    by (intro mapM_map_Some) force
  with assms(1,2) show ?thesis
    by (simp add: forward_for_single_feature_map_def)
qed

subsection \<open>The example level\<close>

lemma sigmoid_le_iff [simp]: "sigmoid a \<le> sigmoid b \<longleftrightarrow> a \<le> b"
proof -
  have pos: "0 < 1 + exp (- a)" "0 < 1 + exp (- b)" by (simp_all add: add_pos_pos)
  have "sigmoid a \<le> sigmoid b \<longleftrightarrow> inverse (1 + exp (- a)) \<le> inverse (1 + exp (- b))"
    by (simp add: sigmoid_def inverse_eq_divide)
  also have "\<dots> \<longleftrightarrow> 1 + exp (- b) \<le> 1 + exp (- a)"
    by (rule inverse_le_iff_le [OF pos])
  also have "\<dots> \<longleftrightarrow> a \<le> b" by simp
  finally show ?thesis .
qed

lemma example_shape: "shape example_objectness = (Suc 0, Suc 0, Suc 0, 2)"
  by (simp add: example_objectness_def)

lemma example_flat:
  "permute_and_flatten example_objectness 1 1 1 1 2 = Some [[[0], [1]]]"
  "permute_and_flatten example_box_regression 1 1 4 1 2 = Some [[[0, 0, 0, 0], [1, 1, 1, 1]]]"
  by (simp_all add: permute_and_flatten_def example_objectness_def example_box_regression_def upt_rec)

lemmas example_flat' = example_flat [unfolded One_nat_def]

lemma example_select_and_decode:
  "select_and_decode example_processor example_anchors example_objectness example_box_regression
     = Some ([[Box 11 11 15 15, Box 0 0 4 4]], [[sigmoid 1, sigmoid 0]], [(20, 20)])"
  by (simp add: select_and_decode_def example_flat' example_shape topk_def argsort_desc_def
      example_processor_def gather_def index_select_def example_anchors_def BoxList_def torch_cat_def
      reshape_rows_def example_coder_def)

lemma example_anchors_ok:
  "length example_anchors = 1" "\<forall>a \<in> set example_anchors. len a = 1 * 1 * 2"
  by (simp_all add: example_anchors_def BoxList_def len_def)

subsection \<open>Selection and decoding on one level\<close>

text \<open>
  Claim C1. On a well-shaped level (the tensors flatten to \<open>L\<close> and \<open>D\<close>, one anchor list
  of \<open>A * H * W\<close> boxes for each of the \<open>N\<close> images), for every image \<open>n\<close> there is one
  index list \<open>topk_idx\<close>, the top-k positions of the image's scores, such that position \<open>i\<close>
  of the output holds the score at the flat index \<open>topk_idx ! i\<close> and the box decoded from the
  delta and the anchor of image \<open>n\<close> at that same flat index.
\<close>

theorem index_correspondence:
  assumes "shape objectness = (N, A, H, W)" and "0 < N"
    and "permute_and_flatten objectness N A 1 H W = Some L"
    and "permute_and_flatten box_regression N A 4 H W = Some D"
    and "length anchors = N" and "\<forall>a \<in> set anchors. len a = A * H * W"
    and "0 \<le> pre_nms_top_n self"
  shows "\<exists>proposals scores shapes.
      select_and_decode self anchors objectness box_regression = Some (proposals, scores, shapes) \<and>
      length proposals = N \<and> length scores = N \<and>
      (\<forall>n<N. \<exists>topk_idx.
          is_topk (map sigmoid (concat (L ! n))) (min (nat (pre_nms_top_n self)) (A * H * W)) topk_idx \<and>
          scores ! n = map (\<lambda>j. map sigmoid (concat (L ! n)) ! j) topk_idx \<and>
          proposals ! n = map (\<lambda>j. box_coder self (D ! n ! j) (bbox (anchors ! n) ! j)) topk_idx)"
proof -
  from select_and_decode_Some [OF assms] obtain proposals scores where
    out: "select_and_decode self anchors objectness box_regression
        = Some (proposals, scores, map im_size anchors)"
      "length proposals = N" "length scores = N"
    and per: "\<And>n. n < N \<Longrightarrow> \<exists>topk_idx.
          topk (map sigmoid (concat (L ! n))) (min (pre_nms_top_n self) (int (A * H * W)))
            = Some (scores ! n, topk_idx) \<and>
          proposals ! n = map (\<lambda>j. box_coder self (D ! n ! j) (bbox (anchors ! n) ! j)) topk_idx"
    by blast
  have nk: "nat (min (pre_nms_top_n self) (int (A * H * W))) = min (nat (pre_nms_top_n self)) (A * H * W)"
    by (rule nat_min_int [OF assms(7)])
  have "\<exists>topk_idx.
          is_topk (map sigmoid (concat (L ! n))) (min (nat (pre_nms_top_n self)) (A * H * W)) topk_idx \<and>
          scores ! n = map (\<lambda>j. map sigmoid (concat (L ! n)) ! j) topk_idx \<and>
          proposals ! n = map (\<lambda>j. box_coder self (D ! n ! j) (bbox (anchors ! n) ! j)) topk_idx"
    if "n < N" for n
  proof -
    from per [OF that] obtain topk_idx where
      t: "topk (map sigmoid (concat (L ! n))) (min (pre_nms_top_n self) (int (A * H * W)))
            = Some (scores ! n, topk_idx)"
      and p: "proposals ! n = map (\<lambda>j. box_coder self (D ! n ! j) (bbox (anchors ! n) ! j)) topk_idx"
      by blast
    from topk_SomeD(3,4) [OF t] p show ?thesis
      unfolding nk by blast
  qed
  with out show ?thesis by blast
qed

theorem index_correspondence_witness:
  "shape example_objectness = (1, 1, 1, 2) \<and>
   permute_and_flatten example_objectness 1 1 1 1 2 = Some [[[0], [1]]] \<and>
   permute_and_flatten example_box_regression 1 1 4 1 2 = Some [[[0, 0, 0, 0], [1, 1, 1, 1]]] \<and>
   length example_anchors = 1 \<and> 0 \<le> pre_nms_top_n example_processor \<and>
   (\<exists>proposals scores shapes topk_idx.
      select_and_decode example_processor example_anchors example_objectness example_box_regression
        = Some (proposals, scores, shapes) \<and>
      is_topk (map sigmoid (concat [[0], [1]])) 2 topk_idx \<and>
      scores ! 0 = map (\<lambda>j. map sigmoid (concat [[0], [1]]) ! j) topk_idx \<and>
      proposals ! 0 = map (\<lambda>j. example_coder ([[0, 0, 0, 0], [1, 1, 1, 1]] ! j) (bbox (example_anchors ! 0) ! j)) topk_idx)"
proof -
  have sh: "shape example_objectness = (1, 1, 1, 2)" by (simp add: example_objectness_def)
  have pre: "0 \<le> pre_nms_top_n example_processor" by (simp add: example_processor_def)
  from index_correspondence [OF sh _ example_flat example_anchors_ok pre]
  obtain proposals scores shapes where
    out: "select_and_decode example_processor example_anchors example_objectness example_box_regression
        = Some (proposals, scores, shapes)"
    and per: "\<forall>n<1. \<exists>topk_idx.
          is_topk (map sigmoid (concat ([[[0], [1]]] ! n))) (min (nat (pre_nms_top_n example_processor)) (1 * 1 * 2)) topk_idx \<and>
          scores ! n = map (\<lambda>j. map sigmoid (concat ([[[0], [1]]] ! n)) ! j) topk_idx \<and>
          proposals ! n = map (\<lambda>j. box_coder example_processor ([[[0, 0, 0, 0], [1, 1, 1, 1]]] ! n ! j) (bbox (example_anchors ! n) ! j)) topk_idx"
    by auto
  have two: "min (nat (pre_nms_top_n example_processor)) (1 * 1 * 2) = 2"
    and coder: "box_coder example_processor = example_coder"
    by (simp_all add: example_processor_def)
  from per [rule_format, of 0] obtain topk_idx where
    "is_topk (map sigmoid (concat [[0], [1]])) 2 topk_idx"
    "scores ! 0 = map (\<lambda>j. map sigmoid (concat [[0], [1]]) ! j) topk_idx"
    "proposals ! 0 = map (\<lambda>j. example_coder ([[0, 0, 0, 0], [1, 1, 1, 1]] ! j) (bbox (example_anchors ! 0) ! j)) topk_idx"
    unfolding two coder nth_Cons_0 by auto
  with out sh pre example_flat example_anchors_ok(1) show ?thesis by blast
qed

text \<open>
  Claim C6. On a well-shaped level with a non-negative \<open>pre_nms_top_n\<close>, the selection keeps
  \<open>min(pre_nms_top_n, A * H * W)\<close> anchors for each image; when \<open>pre_nms_top_n\<close> is at least
  the number of anchors it keeps all of them, and \<^verbatim>\<open>forward_for_single_feature_map\<close> returns a
  box list for each image: it does not fail.
\<close>

theorem pre_nms_top_n_clamps:
  assumes "shape objectness = (N, A, H, W)" and "0 < N"
    and "permute_and_flatten objectness N A 1 H W = Some L"
    and "permute_and_flatten box_regression N A 4 H W = Some D"
    and "length anchors = N" and "\<forall>a \<in> set anchors. len a = A * H * W"
    and "0 \<le> pre_nms_top_n self"
  shows "\<exists>proposals scores shapes result.
      select_and_decode self anchors objectness box_regression = Some (proposals, scores, shapes) \<and>
      length proposals = N \<and> length scores = N \<and>
      (\<forall>n<N. length (scores ! n) = min (nat (pre_nms_top_n self)) (A * H * W) \<and>
             length (proposals ! n) = min (nat (pre_nms_top_n self)) (A * H * W) \<and>
             (int (A * H * W) \<le> pre_nms_top_n self \<longrightarrow> length (proposals ! n) = A * H * W)) \<and>
      forward_for_single_feature_map self anchors objectness box_regression = Some result \<and>
      length result = N"
proof -
  from select_and_decode_Some [OF assms] obtain proposals scores where
    out: "select_and_decode self anchors objectness box_regression
        = Some (proposals, scores, map im_size anchors)"
      "length proposals = N" "length scores = N"
    and per: "\<And>n. n < N \<Longrightarrow> \<exists>topk_idx.
          topk (map sigmoid (concat (L ! n))) (min (pre_nms_top_n self) (int (A * H * W)))
            = Some (scores ! n, topk_idx) \<and>
          proposals ! n = map (\<lambda>j. box_coder self (D ! n ! j) (bbox (anchors ! n) ! j)) topk_idx"
    by blast
  let ?k = "min (nat (pre_nms_top_n self)) (A * H * W)"
  have nk: "nat (min (pre_nms_top_n self) (int (A * H * W))) = ?k"
    by (rule nat_min_int [OF assms(7)])
  have len: "length (scores ! n) = ?k \<and> length (proposals ! n) = ?k" if "n < N" for n
  proof -
    from per [OF that] obtain topk_idx where
      t: "topk (map sigmoid (concat (L ! n))) (min (pre_nms_top_n self) (int (A * H * W)))
            = Some (scores ! n, topk_idx)"
      and p: "proposals ! n = map (\<lambda>j. box_coder self (D ! n ! j) (bbox (anchors ! n) ! j)) topk_idx"
      by blast
    from topk_SomeD(3,4) [OF t] p show ?thesis
      unfolding nk by (simp add: is_topk_def)
  qed
  from forward_for_single_feature_map_Some [OF out(1)] out(2,3) len assms(5)
  obtain result where
    "forward_for_single_feature_map self anchors objectness box_regression = Some result"
    "length result = N"
    by auto
  moreover have "int (A * H * W) \<le> pre_nms_top_n self \<longrightarrow> length (proposals ! n) = A * H * W"
    if "n < N" for n
    using len [OF that] min_nat_clamp [of "A * H * W" "pre_nms_top_n self"] by presburger
  ultimately show ?thesis
    using out len
    by (intro exI [of _ proposals] exI [of _ scores] exI [of _ "map im_size anchors"] exI [of _ result])
       blast
qed

theorem pre_nms_top_n_clamps_witness:
  "shape example_objectness = (1, 1, 1, 2) \<and>
   permute_and_flatten example_objectness 1 1 1 1 2 = Some [[[0], [1]]] \<and>
   permute_and_flatten example_box_regression 1 1 4 1 2 = Some [[[0, 0, 0, 0], [1, 1, 1, 1]]] \<and>
   length example_anchors = 1 \<and> pre_nms_top_n example_processor = 4 \<and>
   (\<exists>proposals scores shapes result.
      select_and_decode example_processor example_anchors example_objectness example_box_regression
        = Some (proposals, scores, shapes) \<and>
      length (scores ! 0) = 2 \<and> length (proposals ! 0) = 2 \<and>
      forward_for_single_feature_map example_processor example_anchors example_objectness
        example_box_regression = Some result \<and>
      length result = 1)"
proof -
  have sh: "shape example_objectness = (1, 1, 1, 2)" by (simp add: example_objectness_def)
  have four: "pre_nms_top_n example_processor = 4" by (simp add: example_processor_def)
  then have pre: "0 \<le> pre_nms_top_n example_processor" by simp
  from pre_nms_top_n_clamps [OF sh _ example_flat example_anchors_ok pre]
  obtain proposals scores shapes result where
    out: "select_and_decode example_processor example_anchors example_objectness example_box_regression
        = Some (proposals, scores, shapes)"
      "forward_for_single_feature_map example_processor example_anchors example_objectness
        example_box_regression = Some result" "length result = 1"
    and per: "\<forall>n<1. length (scores ! n) = min (nat (pre_nms_top_n example_processor)) (1 * 1 * 2) \<and>
             length (proposals ! n) = min (nat (pre_nms_top_n example_processor)) (1 * 1 * 2) \<and>
             (int (1 * 1 * 2) \<le> pre_nms_top_n example_processor \<longrightarrow> length (proposals ! n) = 1 * 1 * 2)"
    by auto
  from per [rule_format, of 0] have "length (scores ! 0) = 2" "length (proposals ! 0) = 2"
    by (simp_all add: four)
  with out sh four example_flat example_anchors_ok(1) show ?thesis by blast
qed

subsection \<open>The box lists along \<^verbatim>\<open>forward\<close>\<close>

lemma forward_for_single_feature_map_SomeD:
  assumes "forward_for_single_feature_map self anchors objectness box_regression = Some result"
    and "bl \<in> set result"
  shows "scored bl"
    "\<forall>b \<in> set (bbox bl). min_size self \<le> width b \<and> min_size self \<le> height b"
proof -
  from assms(1) obtain proposals scores shapes where
    m: "mapM (\<lambda>(proposal, score, im_shape). process_image self proposal score im_shape)
          (zip proposals (zip scores shapes)) = Some result"
    by (auto simp: forward_for_single_feature_map_def bind_eq_Some_conv)
  from assms(2) obtain i where i: "i < length result" "bl = result ! i"
    by (auto simp: in_set_conv_nth)
  from mapM_length [OF m] i(1) have "i < length (zip proposals (zip scores shapes))" by simp
  from mapM_nth [OF m this] obtain p sc sh where "process_image self p sc sh = Some bl"
    by (cases "zip proposals (zip scores shapes) ! i") (auto simp: i(2))
  from process_image_SomeD(1,3) [OF this]
  show "scored bl"
    "\<forall>b \<in> set (bbox bl). min_size self \<le> width b \<and> min_size self \<le> height b"
    by auto
qed

lemma zip_star_nth:
  assumes "i < length (zip_star xss)"
  shows "zip_star xss ! i = map (\<lambda>xs. xs ! i) xss" "xss \<noteq> []" "\<forall>xs \<in> set xss. i < length xs"
proof -
  from assms show ne: "xss \<noteq> []" by (auto simp: zip_star_def)
  with assms have i: "i < Min (set (map length xss))" by (simp add: zip_star_def)
  with ne show "zip_star xss ! i = map (\<lambda>xs. xs ! i) xss" by (simp add: zip_star_def)
  from i ne show "\<forall>xs \<in> set xss. i < length xs" by auto
qed

lemma zip_star_singleton: "zip_star [xs] = map (\<lambda>x. [x]) xs"
  by (rule nth_equalityI) (simp_all add: zip_star_def)

lemma cat_boxlist_scored:
  assumes "bls \<noteq> []" "\<forall>b \<in> set bls. scored b"
  shows "\<exists>r. cat_boxlist bls = Some r \<and> scored r \<and> bbox r = concat (map bbox bls) \<and>
           get_field r ''objectness''
             = Some (concat (map (\<lambda>b. the (get_field b ''objectness'')) bls))"
proof -
  from assms(1) obtain b0 rest where bls: "bls = b0 # rest" by (cases bls) auto
  have g: "get_field b ''objectness'' = Some (the (get_field b ''objectness''))
           \<and> length (the (get_field b ''objectness'')) = length (bbox b)"
    if "b \<in> set bls" for b
    using scored_objectness [of b] assms(2) that by (auto simp: len_def)
  let ?ds = "map (\<lambda>b. the (get_field b ''objectness'')) bls"
  have m: "mapM (\<lambda>b. get_field b ''objectness'') bls = Some ?ds"
    by (rule mapM_map_Some) (use g in simp)
  have names: "map fst (extra_fields b0) = [''objectness'']"
    using assms(2) by (simp add: bls scored_def)
  let ?r = "\<lparr>bbox = concat (map bbox bls), im_size = im_size b0,
             extra_fields = [(''objectness'', concat ?ds)]\<rparr>"
  have c: "cat_boxlist bls = Some ?r"
    using m by (simp add: cat_boxlist_def bls names)
  have "map length ?ds = map length (map bbox bls)" using g by simp
  then have "length (concat ?ds) = length (concat (map bbox bls))"
    by (simp only: length_concat)
  then have "scored ?r" by (simp add: scored_def well_formed_def len_def)
  with c show ?thesis by (intro exI [of _ ?r]) (simp add: get_field_def)
qed

lemma cat_boxlist_single: "scored b \<Longrightarrow> cat_boxlist [b] = Some b"
  using scored_objectness [of b] by (cases b) (auto simp: cat_boxlist_def get_field_def)

lemma split_sizes_length: "split_sizes xs ns = Some yss \<Longrightarrow> length yss = length ns"
  by (induction ns arbitrary: xs yss) (auto split: if_splits)

lemma select_over_all_levels_SomeD:
  assumes "select_over_all_levels self bls = Some out"
  shows "length out = length bls"
    "i < length bls \<Longrightarrow> (\<exists>idx. getitem (bls ! i) idx = Some (out ! i)) \<or>
        (\<exists>keep. getitem_mask (bls ! i) keep = Some (out ! i))"
proof -
  show "length out = length bls"
  proof (cases "training self \<and> fpn_post_nms_per_batch self")
    case True
    with assms obtain masks sizes msk where
      sp: "split_sizes msk (map len bls) = Some masks"
      and m: "mapM (\<lambda>(boxlist, keep). getitem_mask boxlist keep) (zip bls masks) = Some out"
      by (auto simp: select_over_all_levels_def bind_eq_Some_conv Let_def)
    from split_sizes_length [OF sp] mapM_length [OF m] show ?thesis by simp
  next
    case False
    with assms mapM_length show ?thesis
      by (auto simp: select_over_all_levels_def)
  qed
  then have lo: "length out = length bls" .
  show "(\<exists>idx. getitem (bls ! i) idx = Some (out ! i)) \<or>
        (\<exists>keep. getitem_mask (bls ! i) keep = Some (out ! i))" if i: "i < length bls"
  proof (cases "training self \<and> fpn_post_nms_per_batch self")
    case True
    with assms obtain masks msk where
      sp: "split_sizes msk (map len bls) = Some masks"
      and m: "mapM (\<lambda>(boxlist, keep). getitem_mask boxlist keep) (zip bls masks) = Some out"
      by (auto simp: select_over_all_levels_def bind_eq_Some_conv Let_def)
    from split_sizes_length [OF sp] i have "i < length (zip bls masks)" by simp
    from mapM_nth [OF m this] split_sizes_length [OF sp] i show ?thesis by auto
  next
    case False
    with assms have m: "mapM (select_image (fpn_post_nms_top_n self)) bls = Some out"
      by (simp add: select_over_all_levels_per_image)
    from mapM_nth [OF m i] show ?thesis
      by (auto simp: select_image_def bind_eq_Some_conv Let_def)
  qed
qed

lemma forward_targets:
  "forward self anchors objectness box_regression (Some ts) = do {
     boxlists \<leftarrow> forward self anchors objectness box_regression None;
     if training self then add_gt_proposals self boxlists ts else Some boxlists }"
  by (simp add: forward_def Let_def)

lemma admissible_getitem:
  assumes "admissible self bl" "getitem bl idx = Some r"
  shows "admissible self r"
  using assms scored_getitem [of bl idx r] getitem_SomeD(1,2) [OF assms(2)]
  by (auto simp: admissible_def list_all_iff len_def)

lemma admissible_getitem_mask:
  assumes "admissible self bl" "getitem_mask bl keep = Some r"
  shows "admissible self r"
  using assms scored_getitem_mask [of bl keep r] getitem_mask_SomeD(1) [OF assms(2)]
  by (auto simp: admissible_def list_all_iff dest: set_zip_leftD)

lemma admissible_select:
  assumes "select_over_all_levels self bls = Some out" "\<forall>bl \<in> set bls. admissible self bl"
  shows "\<forall>bl \<in> set out. admissible self bl"
proof
  fix bl assume "bl \<in> set out"
  then obtain i where i: "i < length out" "bl = out ! i" by (auto simp: in_set_conv_nth)
  note d = select_over_all_levels_SomeD [OF assms(1)]
  from i d(1) have ib: "i < length bls" by simp
  with assms(2) have "admissible self (bls ! i)" by simp
  with d(2) [OF ib] admissible_getitem admissible_getitem_mask show "admissible self bl"
    unfolding i(2) by blast
qed

lemma admissible_cat:
  assumes "cat_boxlist bls = Some r" "\<forall>bl \<in> set bls. admissible self bl"
  shows "admissible self r"
proof -
  from assms(1) have ne: "bls \<noteq> []" by (auto simp: cat_boxlist_def)
  from assms(2) have "\<forall>b \<in> set bls. scored b" by (simp add: admissible_def)
  from cat_boxlist_scored [OF ne this] assms show ?thesis
    by (auto simp: admissible_def list_all_iff)
qed

lemma forward_None_admissible:
  assumes "forward self anchors objectness box_regression None = Some sel"
  shows "\<forall>bl \<in> set sel. admissible self bl"
proof -
  from assms obtain sampled boxlists where
    s: "mapM (\<lambda>(a, ob, br). forward_for_single_feature_map self a ob br)
          (zip (zip_star anchors) (zip objectness box_regression)) = Some sampled"
    and c: "mapM cat_boxlist (zip_star sampled) = Some boxlists"
    and f: "(if length objectness > 1 then select_over_all_levels self boxlists
             else Some boxlists) = Some sel"
    by (auto simp: forward_def Let_def bind_eq_Some_conv)
  have lev: "admissible self bl" if "r \<in> set sampled" "bl \<in> set r" for r bl
  proof -
    from that(1) obtain l where l: "l < length sampled" "r = sampled ! l"
      by (auto simp: in_set_conv_nth)
    from mapM_length [OF s] l(1)
    have "l < length (zip (zip_star anchors) (zip objectness box_regression))" by simp
    from mapM_nth [OF s this] obtain a ob br where
      "forward_for_single_feature_map self a ob br = Some r"
      by (cases "zip (zip_star anchors) (zip objectness box_regression) ! l") (auto simp: l(2))
    from forward_for_single_feature_map_SomeD [OF this that(2)] show ?thesis
      by (simp add: admissible_def list_all_iff)
  qed
  have "admissible self bl" if "bl \<in> set boxlists" for bl
  proof -
    from that obtain i where i: "i < length boxlists" "bl = boxlists ! i"
      by (auto simp: in_set_conv_nth)
    from mapM_length [OF c] i(1) have iz: "i < length (zip_star sampled)" by simp
    from mapM_nth [OF c iz] have cat: "cat_boxlist (zip_star sampled ! i) = Some bl"
      by (simp add: i(2))
    note z = zip_star_nth [OF iz]
    have "\<forall>b \<in> set (zip_star sampled ! i). admissible self b"
      using z(3) lev by (auto simp: z(1))
    from admissible_cat [OF cat this] show ?thesis .
  qed
  with f admissible_select show ?thesis
    by (auto split: if_splits)
qed

lemma copy_with_no_fields:
  "copy_with_fields target [] = Some \<lparr>bbox = bbox target, im_size = im_size target, extra_fields = []\<rparr>"
  by (simp add: copy_with_fields_def)

lemma add_gt_proposals_scored:
  assumes "proposals \<noteq> []" "\<forall>p \<in> set proposals. scored p"
  shows "\<exists>out. add_gt_proposals self proposals targets = Some out \<and>
           length out = min (length proposals) (length targets) \<and>
           (\<forall>i<length out. \<exists>scores.
               get_field (proposals ! i) ''objectness'' = Some scores \<and>
               bbox (out ! i) = bbox (proposals ! i) @ bbox (targets ! i) \<and>
               get_field (out ! i) ''objectness''
                 = Some (scores @ replicate (length (bbox (targets ! i))) 1))"
proof -
  define gt :: "boxlist \<Rightarrow> boxlist" where "gt = (\<lambda>target. add_field
      \<lparr>bbox = bbox target, im_size = im_size target, extra_fields = []\<rparr> ''objectness''
      (replicate (len \<lparr>bbox = bbox target, im_size = im_size target, extra_fields = []\<rparr>) 1))"
  have m1: "mapM (\<lambda>target. copy_with_fields target []) targets
      = Some (map (\<lambda>target. \<lparr>bbox = bbox target, im_size = im_size target, extra_fields = []\<rparr>) targets)"
    by (rule mapM_map_Some) (rule copy_with_no_fields)
  have gs: "scored (gt t)" "bbox (gt t) = bbox t"
    "get_field (gt t) ''objectness'' = Some (replicate (length (bbox t)) 1)" for t
    by (simp_all add: gt_def add_field_def scored_def well_formed_def len_def get_field_def)
  have cat: "\<exists>r. cat_boxlist [p, gt t] = Some r \<and> bbox r = bbox p @ bbox t \<and>
      get_field r ''objectness''
        = Some (the (get_field p ''objectness'') @ replicate (length (bbox t)) 1)"
    if "scored p" for p t
    using cat_boxlist_scored [of "[p, gt t]"] that gs [of t] by auto
  define f :: "boxlist \<times> boxlist \<Rightarrow> boxlist" where "f = (\<lambda>(p, g). the (cat_boxlist [p, g]))"
  let ?zs = "zip proposals (map gt targets)"
  have m2: "mapM (\<lambda>(proposal, gt_box). cat_boxlist [proposal, gt_box]) ?zs = Some (map f ?zs)"
  proof (rule mapM_map_Some)
    fix z assume "z \<in> set ?zs"
    then obtain i where "i < length proposals" "i < length targets"
      "z = (proposals ! i, gt (targets ! i))"
      by (auto simp: set_zip)
    with cat [of "proposals ! i" "targets ! i"] assms(2)
    show "(case z of (proposal, gt_box) \<Rightarrow> cat_boxlist [proposal, gt_box]) = Some (f z)"
      by (auto simp: f_def)
  qed
  have out: "add_gt_proposals self proposals targets = Some (map f ?zs)"
    using assms(1) m1 m2 by (simp add: add_gt_proposals_def gt_def comp_def)
  have "\<exists>scores.
               get_field (proposals ! i) ''objectness'' = Some scores \<and>
               bbox (map f ?zs ! i) = bbox (proposals ! i) @ bbox (targets ! i) \<and>
               get_field (map f ?zs ! i) ''objectness''
                 = Some (scores @ replicate (length (bbox (targets ! i))) 1)"
    if "i < length (map f ?zs)" for i
  proof -
    from that have i: "i < length proposals" "i < length targets" by simp_all
    with assms(2) have sp: "scored (proposals ! i)" by simp
    from scored_objectness [OF sp] cat [OF sp, of "targets ! i"] i show ?thesis
      by (auto simp: f_def)
  qed
  with out show ?thesis by (intro exI [of _ "map f ?zs"]) simp
qed

lemma mapM_cat_singletons:
  "\<forall>b \<in> set r. scored b \<Longrightarrow> mapM cat_boxlist (map (\<lambda>x. [x]) r) = Some r"
  by (induction r) (auto simp: cat_boxlist_single)

lemma forward_single_level:
  assumes "anchors \<noteq> []" "\<forall>a \<in> set anchors. a \<noteq> []"
  shows "forward self anchors [ob] [br] None
           = forward_for_single_feature_map self (map hd anchors) ob br"
proof -
  have "0 < Min (set (map length anchors))"
    using assms by (subst Min_gr_iff) auto
  then have z: "zip_star anchors
      = map (\<lambda>xs. xs ! 0) anchors # map (\<lambda>i. map (\<lambda>xs. xs ! i) anchors) [1..<Min (set (map length anchors))]"
    using assms(1) by (simp add: zip_star_def upt_conv_Cons)
  have h: "map (\<lambda>xs. xs ! 0) anchors = map hd anchors"
    using assms(2) by (auto simp: hd_conv_nth)
  show ?thesis
  proof (cases "forward_for_single_feature_map self (map hd anchors) ob br")
    case None
    then show ?thesis by (simp add: forward_def z h)
  next
    case (Some r)
    then have "\<forall>b \<in> set r. scored b"
      using forward_for_single_feature_map_SomeD(1) by blast
    from mapM_cat_singletons [OF this] Some show ?thesis
      by (simp add: forward_def z h zip_star_singleton)
  qed
qed

lemma forward_for_single_feature_map_fpn:
  "forward_for_single_feature_map (self\<lparr>fpn_post_nms_top_n := c, fpn_post_nms_per_batch := pb\<rparr>)
     anchors ob br = forward_for_single_feature_map self anchors ob br"
  by (simp add: forward_for_single_feature_map_def select_and_decode_def process_image_def)

subsection \<open>The example run of \<^verbatim>\<open>forward\<close>\<close>

lemma select_and_decode_cong:
  "pre_nms_top_n p = pre_nms_top_n q \<Longrightarrow> box_coder p = box_coder q \<Longrightarrow>
   select_and_decode p anchors ob br = select_and_decode q anchors ob br"
  by (simp add: select_and_decode_def)

lemma example_level:
  "forward_for_single_feature_map example_training_processor example_anchors example_objectness
     example_box_regression
   = Some [\<lparr>bbox = [Box 11 11 15 15, Box 0 0 4 4], im_size = (20, 20),
            extra_fields = [(''objectness'', [sigmoid 1, sigmoid 0])]\<rparr>]"
proof -
  have d: "select_and_decode example_training_processor example_anchors example_objectness
      example_box_regression = Some ([[Box 11 11 15 15, Box 0 0 4 4]], [[sigmoid 1, sigmoid 0]], [(20, 20)])"
    using select_and_decode_cong [of example_training_processor example_processor]
    by (simp add: example_training_processor_def example_select_and_decode)
  have i: "process_image example_training_processor [Box 11 11 15 15, Box 0 0 4 4]
      [sigmoid 1, sigmoid 0] (20, 20)
    = Some \<lparr>bbox = [Box 11 11 15 15, Box 0 0 4 4], im_size = (20, 20),
            extra_fields = [(''objectness'', [sigmoid 1, sigmoid 0])]\<rparr>"
    by (simp add: process_image_def clipped_boxlist clip_box_def clamp_def remove_small_boxes_def
      getitem_mask_def mask_select_def width_def height_def example_training_processor_def
      example_processor_def boxlist_nms_def get_field_def argsort_desc_def index_select_def
      getitem_def eval_nat_numeral iou_def intersection_def area_def)
  show ?thesis by (simp add: forward_for_single_feature_map_def d i)
qed

lemma example_strict_level:
  "forward_for_single_feature_map example_strict_processor example_anchors example_objectness
     example_box_regression
   = Some [\<lparr>bbox = [], im_size = (20, 20), extra_fields = [(''objectness'', [])]\<rparr>]"
proof -
  have d: "select_and_decode example_strict_processor example_anchors example_objectness
      example_box_regression = Some ([[Box 11 11 15 15, Box 0 0 4 4]], [[sigmoid 1, sigmoid 0]], [(20, 20)])"
    using select_and_decode_cong [of example_strict_processor example_processor]
    by (simp add: example_strict_processor_def example_training_processor_def example_select_and_decode)
  have i: "process_image example_strict_processor [Box 11 11 15 15, Box 0 0 4 4]
      [sigmoid 1, sigmoid 0] (20, 20)
    = Some \<lparr>bbox = [], im_size = (20, 20), extra_fields = [(''objectness'', [])]\<rparr>"
    by (simp add: process_image_def clipped_boxlist clip_box_def clamp_def remove_small_boxes_def
      getitem_mask_def mask_select_def width_def height_def example_strict_processor_def
      example_training_processor_def
      example_processor_def boxlist_nms_def get_field_def argsort_desc_def index_select_def
      getitem_def eval_nat_numeral)
  show ?thesis by (simp add: forward_for_single_feature_map_def d i)
qed

lemma example_image_anchors:
  "map (\<lambda>a. [a]) example_anchors \<noteq> []" "\<forall>a \<in> set (map (\<lambda>a. [a]) example_anchors). a \<noteq> []"
  "map hd (map (\<lambda>a. [a]) example_anchors) = example_anchors"
  by (simp_all add: example_anchors_def)

lemma example_forward:
  "forward example_training_processor (map (\<lambda>a. [a]) example_anchors) [example_objectness]
     [example_box_regression] None
   = Some [\<lparr>bbox = [Box 11 11 15 15, Box 0 0 4 4], im_size = (20, 20),
            extra_fields = [(''objectness'', [sigmoid 1, sigmoid 0])]\<rparr>]"
  by (simp only: forward_single_level [OF example_image_anchors(1,2)] example_image_anchors(3)
      example_level)

lemma example_forward_targets:
  "forward example_training_processor (map (\<lambda>a. [a]) example_anchors) [example_objectness]
     [example_box_regression] (Some example_targets)
   = Some [\<lparr>bbox = [Box 11 11 15 15, Box 0 0 4 4, Box 1 1 2 2], im_size = (20, 20),
            extra_fields = [(''objectness'', [sigmoid 1, sigmoid 0, 1])]\<rparr>]"
proof -
  have "training example_training_processor" by (simp add: example_training_processor_def)
  moreover have "add_gt_proposals example_training_processor
      [\<lparr>bbox = [Box 11 11 15 15, Box 0 0 4 4], im_size = (20, 20),
            extra_fields = [(''objectness'', [sigmoid 1, sigmoid 0])]\<rparr>] example_targets
     = Some [\<lparr>bbox = [Box 11 11 15 15, Box 0 0 4 4, Box 1 1 2 2], im_size = (20, 20),
            extra_fields = [(''objectness'', [sigmoid 1, sigmoid 0, 1])]\<rparr>]"
    by (simp add: add_gt_proposals_def example_targets_def BoxList_def copy_with_fields_def
        add_field_def len_def cat_boxlist_def get_field_def)
  ultimately show ?thesis by (simp add: forward_targets example_forward)
qed

subsection \<open>Clipping and the minimum size\<close>

lemma sigmoid_0: "sigmoid 0 = 1 / 2"
  by (simp add: sigmoid_def)

lemma example_outside_decode:
  "select_and_decode example_processor example_outside_anchors example_objectness1
     example_box_regression1 = Some ([[Box (- 5) (- 5) (- 1) (- 1)]], [[1 / 2]], [(20, 20)])"
  by (simp add: select_and_decode_def permute_and_flatten_def example_objectness1_def
      example_box_regression1_def topk_def argsort_desc_def example_processor_def gather_def
      index_select_def example_outside_anchors_def BoxList_def torch_cat_def reshape_rows_def
      example_coder_def sigmoid_0)

lemma example_outside_image:
  "process_image example_processor [Box (- 5) (- 5) (- 1) (- 1)] [1 / 2] (20, 20)
     = Some \<lparr>bbox = [Box 0 0 0 0], im_size = (20, 20), extra_fields = [(''objectness'', [1 / 2])]\<rparr>"
  by (simp add: process_image_def clipped_boxlist clip_box_def clamp_def remove_small_boxes_def
      getitem_mask_def mask_select_def width_def height_def example_processor_def boxlist_nms_def
      get_field_def argsort_desc_def index_select_def getitem_def eval_nat_numeral)

text \<open>
  Claim C8, as stated: every degenerate box that clipping produces is removed by the
  min-size step. It is not: with \<open>min_size = 0\<close> an anchor outside the image is clipped to
  the zero-area box \<open>(0, 0, 0, 0)\<close>, whose width and height \<open>0\<close> are not strictly less than
  \<open>min_size\<close>; the box is in the output of \<^verbatim>\<open>forward_for_single_feature_map\<close>.
\<close>

theorem degenerate_box_survives_counterexample:
  "forward_for_single_feature_map example_processor example_outside_anchors example_objectness1
     example_box_regression1
   = Some [\<lparr>bbox = [Box 0 0 0 0], im_size = (20, 20), extra_fields = [(''objectness'', [1 / 2])]\<rparr>] \<and>
   area (Box 0 0 0 0) = 0 \<and> min_size example_processor = 0"
proof -
  have "area (Box 0 0 0 0) = 0" "min_size example_processor = 0"
    by (simp_all add: area_def width_def example_processor_def)
  then show ?thesis
    by (simp add: forward_for_single_feature_map_def example_outside_decode example_outside_image)
qed

lemma filter_zip_mask_scores:
  "length ss = length xs \<Longrightarrow>
   map fst (filter snd (zip ss (map (\<lambda>b. \<not> (width b < ms \<or> height b < ms)) xs)))
     = map snd (filter (\<lambda>(b, s). ms \<le> width b \<and> ms \<le> height b) (zip xs ss))"
  by (induction ss xs rule: list_induct2) (auto simp: not_less)

lemma example_clip_image:
  "process_image example_strict_processor [Box (- 5) (- 5) (- 1) (- 1), Box 1 1 30 8] [1 / 2, 1 / 3]
     (20, 20)
   = Some \<lparr>bbox = [Box 1 1 20 8], im_size = (20, 20), extra_fields = [(''objectness'', [1 / 3])]\<rparr>"
  by (simp add: process_image_def clipped_boxlist clip_box_def clamp_def remove_small_boxes_def
      getitem_mask_def mask_select_def width_def height_def example_strict_processor_def
      example_training_processor_def example_processor_def boxlist_nms_def
      get_field_def argsort_desc_def index_select_def getitem_def eval_nat_numeral)

text \<open>
  Claim C8, amended. In the loop body of \<^verbatim>\<open>forward_for_single_feature_map\<close> the clip step
  (\<^verbatim>\<open>remove_empty=False\<close>) clips every decoded box to the image and removes none; the
  min-size step that follows keeps exactly the clipped boxes, with their scores, whose
  width and height are both at least \<open>min_size\<close>, and hands them to the suppression. So a
  zero-area box reaches the output only when \<open>min_size\<close> is not positive: with a positive
  \<open>min_size\<close> every box in the output of \<^verbatim>\<open>forward_for_single_feature_map\<close> has a positive
  area.
\<close>

theorem clip_then_min_size:
  assumes "length score = length proposal"
  shows "(\<exists>c r.
      clip_to_image (add_field (BoxList proposal im_shape) ''objectness'' score) False = Some c \<and>
      bbox c = map (clip_box im_shape) proposal \<and> length (bbox c) = length proposal \<and>
      get_field c ''objectness'' = Some score \<and>
      remove_small_boxes c (min_size self) = Some r \<and>
      bbox r = filter (\<lambda>b. min_size self \<le> width b \<and> min_size self \<le> height b) (bbox c) \<and>
      get_field r ''objectness''
        = Some (map snd (filter (\<lambda>(b, s). min_size self \<le> width b \<and> min_size self \<le> height b)
                           (zip (bbox c) score))) \<and>
      process_image self proposal score im_shape
        = boxlist_nms r (nms_thresh self) (post_nms_top_n self) ''objectness'' \<and>
      (\<exists>bl. process_image self proposal score im_shape = Some bl \<and>
            set (bbox bl) \<subseteq> set (bbox r) \<and>
            (0 < min_size self \<longrightarrow> (\<forall>b \<in> set (bbox bl). 0 < area b)))) \<and>
    (forward_for_single_feature_map self anchors objectness box_regression = Some result \<longrightarrow>
       0 < min_size self \<longrightarrow> (\<forall>bl \<in> set result. \<forall>b \<in> set (bbox bl). 0 < area b))"
proof (rule conjI)
  let ?c = "\<lparr>bbox = map (clip_box im_shape) proposal, im_size = im_shape,
             extra_fields = [(''objectness'', score)]\<rparr>"
  let ?keep = "map (\<lambda>b. \<not> (width b < min_size self \<or> height b < min_size self)) (bbox ?c)"
  have c: "clip_to_image (add_field (BoxList proposal im_shape) ''objectness'' score) False = Some ?c"
    by (rule clipped_boxlist)
  have wf: "well_formed ?c" using assms by (simp add: well_formed_def len_def)
  from getitem_mask_well_formed [OF wf, of ?keep]
  obtain r where r: "remove_small_boxes ?c (min_size self) = Some r"
    and rf: "extra_fields r = [(''objectness'', map fst (filter snd (zip score ?keep)))]"
    by (auto simp: remove_small_boxes_def len_def)
  note f = remove_small_boxes_SomeD [OF r]
  have g: "get_field r ''objectness''
        = Some (map snd (filter (\<lambda>(b, s). min_size self \<le> width b \<and> min_size self \<le> height b)
                           (zip (bbox ?c) score)))"
    using filter_zip_mask_scores [OF assms [folded length_map [of "clip_box im_shape" proposal]]]
    by (simp add: get_field_def rf)
  have p: "process_image self proposal score im_shape
        = boxlist_nms r (nms_thresh self) (post_nms_top_n self) ''objectness''"
    by (simp add: process_image_def c r)
  from process_image_Some [OF assms, of self im_shape] obtain bl where
    bl: "process_image self proposal score im_shape = Some bl" by blast
  from boxlist_nms_SomeD(1) [OF bl [unfolded p]] have sub: "set (bbox bl) \<subseteq> set (bbox r)" .
  have "0 < area b" if "0 < min_size self" "b \<in> set (bbox bl)" for b
    using that f sub by (auto simp: area_def intro!: mult_pos_pos)
  with bl sub have last: "\<exists>bl. process_image self proposal score im_shape = Some bl \<and>
            set (bbox bl) \<subseteq> set (bbox r) \<and>
            (0 < min_size self \<longrightarrow> (\<forall>b \<in> set (bbox bl). 0 < area b))"
    by blast
  have gc: "get_field ?c ''objectness'' = Some score" by (simp add: get_field_def)
  from c gc r f g p last show "\<exists>c r.
      clip_to_image (add_field (BoxList proposal im_shape) ''objectness'' score) False = Some c \<and>
      bbox c = map (clip_box im_shape) proposal \<and> length (bbox c) = length proposal \<and>
      get_field c ''objectness'' = Some score \<and>
      remove_small_boxes c (min_size self) = Some r \<and>
      bbox r = filter (\<lambda>b. min_size self \<le> width b \<and> min_size self \<le> height b) (bbox c) \<and>
      get_field r ''objectness''
        = Some (map snd (filter (\<lambda>(b, s). min_size self \<le> width b \<and> min_size self \<le> height b)
                           (zip (bbox c) score))) \<and>
      process_image self proposal score im_shape
        = boxlist_nms r (nms_thresh self) (post_nms_top_n self) ''objectness'' \<and>
      (\<exists>bl. process_image self proposal score im_shape = Some bl \<and>
            set (bbox bl) \<subseteq> set (bbox r) \<and>
            (0 < min_size self \<longrightarrow> (\<forall>b \<in> set (bbox bl). 0 < area b)))"
    by (rule_tac x = ?c in exI, rule_tac x = r in exI) simp
  show "forward_for_single_feature_map self anchors objectness box_regression = Some result \<longrightarrow>
         0 < min_size self \<longrightarrow> (\<forall>bl \<in> set result. \<forall>b \<in> set (bbox bl). 0 < area b)"
  proof (intro impI ballI)
    fix bl b
    assume "forward_for_single_feature_map self anchors objectness box_regression = Some result"
      and pos: "0 < min_size self" and "bl \<in> set result" and b: "b \<in> set (bbox bl)"
    from forward_for_single_feature_map_SomeD(2) [OF this(1,3)] b
    have "min_size self \<le> width b" "min_size self \<le> height b" by auto
    with pos show "0 < area b" by (auto simp: area_def intro!: mult_pos_pos)
  qed
qed

theorem clip_then_min_size_witness:
  "length [1 / 2, 1 / 3 :: real] = length [Box (- 5) (- 5) (- 1) (- 1), Box 1 1 30 8] \<and>
   (\<exists>c r. clip_to_image (add_field (BoxList [Box (- 5) (- 5) (- 1) (- 1), Box 1 1 30 8] (20, 20))
                ''objectness'' [1 / 2, 1 / 3]) False = Some c \<and>
      bbox c = [Box 0 0 0 0, Box 1 1 20 8] \<and>
      remove_small_boxes c (min_size example_strict_processor) = Some r \<and>
      bbox r = [Box 1 1 20 8] \<and> get_field r ''objectness'' = Some [1 / 3] \<and>
      process_image example_strict_processor [Box (- 5) (- 5) (- 1) (- 1), Box 1 1 30 8]
          [1 / 2, 1 / 3] (20, 20)
        = boxlist_nms r (nms_thresh example_strict_processor)
            (post_nms_top_n example_strict_processor) ''objectness'') \<and>
   process_image example_strict_processor [Box (- 5) (- 5) (- 1) (- 1), Box 1 1 30 8] [1 / 2, 1 / 3]
     (20, 20)
   = Some \<lparr>bbox = [Box 1 1 20 8], im_size = (20, 20), extra_fields = [(''objectness'', [1 / 3])]\<rparr>"
proof -
  let ?p = "[Box (- 5) (- 5) (- 1) (- 1), Box 1 1 30 8]"
  let ?s = "[1 / 2, 1 / 3 :: real]"
  let ?P = example_strict_processor
  have l: "length ?s = length ?p" by simp
  have ms: "min_size ?P = 5"
    by (simp add: example_strict_processor_def)
  have cl: "map (clip_box (20, 20)) ?p = [Box 0 0 0 0, Box 1 1 20 8]"
    by (simp add: clip_box_def clamp_def)
  from conjunct1 [OF clip_then_min_size [OF l, of "(20, 20)" ?P]] obtain c r where
    c: "clip_to_image (add_field (BoxList ?p (20, 20)) ''objectness'' ?s) False = Some c"
      "bbox c = map (clip_box (20, 20)) ?p"
    and r: "remove_small_boxes c (min_size ?P) = Some r"
      "bbox r = filter (\<lambda>b. min_size ?P \<le> width b \<and> min_size ?P \<le> height b) (bbox c)"
      "get_field r ''objectness''
        = Some (map snd (filter (\<lambda>(b, s). min_size ?P \<le> width b \<and> min_size ?P \<le> height b)
                           (zip (bbox c) ?s)))"
    and p: "process_image ?P ?p ?s (20, 20)
        = boxlist_nms r (nms_thresh ?P) (post_nms_top_n ?P) ''objectness''"
    by blast
  from c(2) have bc: "bbox c = [Box 0 0 0 0, Box 1 1 20 8]" by (simp only: cl)
  from r(2,3) have "bbox r = [Box 1 1 20 8]" "get_field r ''objectness'' = Some [1 / 3]"
    unfolding bc ms by (simp_all add: width_def height_def)
  with l c(1) bc r(1) p example_clip_image show ?thesis by blast
qed

subsection \<open>Ground-truth injection\<close>

text \<open>
  Claim C4. In training mode with targets, \<^verbatim>\<open>forward\<close> returns what it returns without
  targets (the box lists after the final selection, \<open>sel\<close>) with the ground truth appended
  by \<^verbatim>\<open>add_gt_proposals\<close>: for each image the selected boxes and scores come first,
  unchanged and in their order, followed by all ground-truth boxes of that image, each with
  objectness \<open>1\<close>. No limit and no suppression is applied after the injection.
\<close>

theorem gt_injection:
  assumes "training self"
    and "forward self anchors objectness box_regression None = Some sel"
    and "sel \<noteq> []"
  shows "\<exists>out. forward self anchors objectness box_regression (Some targets) = Some out \<and>
           add_gt_proposals self sel targets = Some out \<and>
           length out = min (length sel) (length targets) \<and>
           (\<forall>i<length out. \<exists>scores.
               get_field (sel ! i) ''objectness'' = Some scores \<and>
               bbox (out ! i) = bbox (sel ! i) @ bbox (targets ! i) \<and>
               get_field (out ! i) ''objectness''
                 = Some (scores @ replicate (length (bbox (targets ! i))) 1))"
proof -
  have "\<forall>p \<in> set sel. scored p"
    using forward_None_admissible [OF assms(2)] by (simp add: admissible_def)
  from add_gt_proposals_scored [OF assms(3) this, of self targets] assms(1,2)
  show ?thesis by (auto simp: forward_targets)
qed

theorem gt_injection_witness:
  "training example_training_processor \<and>
   forward example_training_processor (map (\<lambda>a. [a]) example_anchors) [example_objectness]
     [example_box_regression] None
   = Some [\<lparr>bbox = [Box 11 11 15 15, Box 0 0 4 4], im_size = (20, 20),
            extra_fields = [(''objectness'', [sigmoid 1, sigmoid 0])]\<rparr>] \<and>
   (\<exists>out. forward example_training_processor (map (\<lambda>a. [a]) example_anchors) [example_objectness]
       [example_box_regression] (Some example_targets) = Some out \<and>
      length out = 1 \<and>
      bbox (out ! 0) = [Box 11 11 15 15, Box 0 0 4 4, Box 1 1 2 2] \<and>
      get_field (out ! 0) ''objectness'' = Some [sigmoid 1, sigmoid 0, 1])"
proof -
  let ?sel = "[\<lparr>bbox = [Box 11 11 15 15, Box 0 0 4 4], im_size = (20, 20),
            extra_fields = [(''objectness'', [sigmoid 1, sigmoid 0])]\<rparr>]"
  have t: "training example_training_processor"
    by (simp add: example_training_processor_def)
  have ne: "?sel \<noteq> []" by simp
  from gt_injection [OF t example_forward ne, of example_targets] obtain out where
    out: "forward example_training_processor (map (\<lambda>a. [a]) example_anchors) [example_objectness]
       [example_box_regression] (Some example_targets) = Some out"
      "length out = min (length ?sel) (length example_targets)"
    and per: "\<forall>i<length out. \<exists>scores.
               get_field (?sel ! i) ''objectness'' = Some scores \<and>
               bbox (out ! i) = bbox (?sel ! i) @ bbox (example_targets ! i) \<and>
               get_field (out ! i) ''objectness''
                 = Some (scores @ replicate (length (bbox (example_targets ! i))) 1)"
    by blast
  from out(2) have l: "length out = 1" by (simp add: example_targets_def)
  with per [rule_format, of 0]
  have "bbox (out ! 0) = [Box 11 11 15 15, Box 0 0 4 4, Box 1 1 2 2]"
    "get_field (out ! 0) ''objectness'' = Some [sigmoid 1, sigmoid 0, 1]"
    by (simp_all add: example_targets_def BoxList_def get_field_def)
  with t example_forward out(1) l show ?thesis by blast
qed

subsection \<open>A single feature level\<close>

text \<open>
  Claim C5. With exactly one feature level, \<^verbatim>\<open>forward\<close> without targets returns the output
  of \<^verbatim>\<open>forward_for_single_feature_map\<close> on that level unchanged; with targets the ground
  truth is injected into that output; and the result does not depend on
  \<open>fpn_post_nms_top_n\<close> or \<open>fpn_post_nms_per_batch\<close>: the cross-level selection is skipped.
\<close>

theorem single_level_skips_selection:
  assumes "anchors \<noteq> []" "\<forall>a \<in> set anchors. a \<noteq> []"
  shows "forward self anchors [ob] [br] None
           = forward_for_single_feature_map self (map hd anchors) ob br \<and>
         forward self anchors [ob] [br] (Some ts)
           = do { boxlists \<leftarrow> forward_for_single_feature_map self (map hd anchors) ob br;
                  if training self then add_gt_proposals self boxlists ts else Some boxlists } \<and>
         forward (self\<lparr>fpn_post_nms_top_n := c, fpn_post_nms_per_batch := pb\<rparr>) anchors [ob] [br] None
           = forward self anchors [ob] [br] None"
  by (simp add: forward_targets forward_single_level [OF assms] forward_for_single_feature_map_fpn)

theorem single_level_skips_selection_witness:
  "map (\<lambda>a. [a]) example_anchors \<noteq> [] \<and>
   forward example_training_processor (map (\<lambda>a. [a]) example_anchors) [example_objectness]
     [example_box_regression] None
   = forward_for_single_feature_map example_training_processor example_anchors example_objectness
       example_box_regression \<and>
   forward (example_training_processor\<lparr>fpn_post_nms_top_n := 1, fpn_post_nms_per_batch := False\<rparr>)
     (map (\<lambda>a. [a]) example_anchors) [example_objectness] [example_box_regression] None
   = Some [\<lparr>bbox = [Box 11 11 15 15, Box 0 0 4 4], im_size = (20, 20),
            extra_fields = [(''objectness'', [sigmoid 1, sigmoid 0])]\<rparr>]"
  using single_level_skips_selection [OF example_image_anchors(1,2),
      where self = example_training_processor and ob = example_objectness
        and br = example_box_regression and ts = example_targets and c = 1 and pb = False]
  by (simp only: example_image_anchors(3) example_forward) (simp add: example_anchors_def)

subsection \<open>The minimum size in the outputs\<close>

text \<open>
  Claim C7, as stated: no box narrower or lower than \<open>min_size\<close> appears in the output of
  \<^verbatim>\<open>forward_for_single_feature_map\<close>, and hence in any output of the pipeline. The second
  part fails: in training mode the ground-truth boxes are appended after all filtering.
  With \<open>min_size = 5\<close>, the output of \<^verbatim>\<open>forward\<close> holds the ground-truth box
  \<open>(1, 1, 2, 2)\<close> of width \<open>1\<close>.
\<close>

theorem min_size_any_output_counterexample:
  "forward example_strict_processor (map (\<lambda>a. [a]) example_anchors) [example_objectness]
     [example_box_regression] (Some example_targets)
   = Some [\<lparr>bbox = [Box 1 1 2 2], im_size = (20, 20), extra_fields = [(''objectness'', [1])]\<rparr>] \<and>
   width (Box 1 1 2 2) < min_size example_strict_processor"
proof -
  have t: "training example_strict_processor" and w: "width (Box 1 1 2 2) < min_size example_strict_processor"
    by (simp_all add: example_strict_processor_def example_training_processor_def width_def)
  have f: "forward example_strict_processor (map (\<lambda>a. [a]) example_anchors) [example_objectness]
     [example_box_regression] None
     = Some [\<lparr>bbox = [], im_size = (20, 20), extra_fields = [(''objectness'', [])]\<rparr>]"
    by (simp only: forward_single_level [OF example_image_anchors(1,2)] example_image_anchors(3)
      example_strict_level)
  have "add_gt_proposals example_strict_processor
      [\<lparr>bbox = [], im_size = (20, 20), extra_fields = [(''objectness'', [])]\<rparr>] example_targets
     = Some [\<lparr>bbox = [Box 1 1 2 2], im_size = (20, 20), extra_fields = [(''objectness'', [1])]\<rparr>]"
    by (simp add: add_gt_proposals_def example_targets_def BoxList_def copy_with_fields_def
        add_field_def len_def cat_boxlist_def get_field_def)
  with t f w show ?thesis by (simp add: forward_targets)
qed

text \<open>
  Claim C7, amended. No box narrower or lower than \<open>min_size\<close> appears in the output of
  \<^verbatim>\<open>forward_for_single_feature_map\<close>; and every box in the output of \<^verbatim>\<open>forward\<close> is
  either at least \<open>min_size\<close> wide and high, or a ground-truth box of the same image
  injected in training mode.
\<close>

theorem min_size_filter:
  "(forward_for_single_feature_map self level_anchors ob br = Some result \<longrightarrow>
      (\<forall>bl \<in> set result. \<forall>b \<in> set (bbox bl).
          min_size self \<le> width b \<and> min_size self \<le> height b)) \<and>
   (forward self anchors objectness box_regression targets = Some out \<longrightarrow>
      (\<forall>i<length out. \<forall>b \<in> set (bbox (out ! i)).
          (min_size self \<le> width b \<and> min_size self \<le> height b) \<or>
          (training self \<and> (\<exists>ts. targets = Some ts \<and> i < length ts \<and> b \<in> set (bbox (ts ! i))))))"
proof (intro conjI impI)
  assume "forward_for_single_feature_map self level_anchors ob br = Some result"
  from forward_for_single_feature_map_SomeD(2) [OF this]
  show "\<forall>bl \<in> set result. \<forall>b \<in> set (bbox bl).
          min_size self \<le> width b \<and> min_size self \<le> height b"
    by blast
next
  assume out: "forward self anchors objectness box_regression targets = Some out"
  have adm: "min_size self \<le> width b \<and> min_size self \<le> height b"
    if "forward self anchors objectness box_regression None = Some sel" "i < length sel"
      "b \<in> set (bbox (sel ! i))" for sel i b
    using forward_None_admissible [OF that(1)] that(2,3)
    by (auto simp: admissible_def list_all_iff)
  show "\<forall>i<length out. \<forall>b \<in> set (bbox (out ! i)).
          (min_size self \<le> width b \<and> min_size self \<le> height b) \<or>
          (training self \<and> (\<exists>ts. targets = Some ts \<and> i < length ts \<and> b \<in> set (bbox (ts ! i))))"
  proof (cases targets)
    case None
    with out adm show ?thesis by blast
  next
    case (Some ts)
    with out obtain sel where sel: "forward self anchors objectness box_regression None = Some sel"
      and inj: "(if training self then add_gt_proposals self sel ts else Some sel) = Some out"
      by (auto simp: forward_targets bind_eq_Some_conv)
    show ?thesis
    proof (cases "training self")
      case False
      with inj have "out = sel" by simp
      with sel adm show ?thesis by blast
    next
      case True
      with inj have a: "add_gt_proposals self sel ts = Some out" by simp
      then have ne: "sel \<noteq> []" by (auto simp: add_gt_proposals_def)
      have "\<forall>p \<in> set sel. scored p"
        using forward_None_admissible [OF sel] by (simp add: admissible_def)
      from add_gt_proposals_scored [OF ne this, of self ts] a
      have l: "length out = min (length sel) (length ts)"
        and b: "\<forall>i<length out. bbox (out ! i) = bbox (sel ! i) @ bbox (ts ! i)"
        by auto
      show ?thesis
      proof (intro allI impI ballI)
        fix i b assume i: "i < length out" and "b \<in> set (bbox (out ! i))"
        with b have "b \<in> set (bbox (sel ! i)) \<or> b \<in> set (bbox (ts ! i))" by auto
        with adm [OF sel, of i b] i l True Some
        show "(min_size self \<le> width b \<and> min_size self \<le> height b) \<or>
          (training self \<and> (\<exists>ts. targets = Some ts \<and> i < length ts \<and> b \<in> set (bbox (ts ! i))))"
          by auto
      qed
    qed
  qed
qed

theorem min_size_filter_witness:
  "forward_for_single_feature_map example_training_processor example_anchors example_objectness
     example_box_regression
   = Some [\<lparr>bbox = [Box 11 11 15 15, Box 0 0 4 4], im_size = (20, 20),
            extra_fields = [(''objectness'', [sigmoid 1, sigmoid 0])]\<rparr>] \<and>
   min_size example_training_processor \<le> width (Box 11 11 15 15) \<and>
   min_size example_training_processor \<le> height (Box 0 0 4 4) \<and>
   forward example_training_processor (map (\<lambda>a. [a]) example_anchors) [example_objectness]
     [example_box_regression] (Some example_targets)
   = Some [\<lparr>bbox = [Box 11 11 15 15, Box 0 0 4 4, Box 1 1 2 2], im_size = (20, 20),
            extra_fields = [(''objectness'', [sigmoid 1, sigmoid 0, 1])]\<rparr>] \<and>
   (min_size example_training_processor \<le> width (Box 1 1 2 2) \<and>
      min_size example_training_processor \<le> height (Box 1 1 2 2) \<or>
    training example_training_processor \<and> Box 1 1 2 2 \<in> set (bbox (example_targets ! 0)))"
proof -
  note m = min_size_filter [where self = example_training_processor
      and level_anchors = example_anchors
      and ob = example_objectness and br = example_box_regression
      and anchors = "map (\<lambda>a. [a]) example_anchors"
      and objectness = "[example_objectness]" and box_regression = "[example_box_regression]"
      and targets = "Some example_targets"
      and result = "[\<lparr>bbox = [Box 11 11 15 15, Box 0 0 4 4], im_size = (20, 20),
            extra_fields = [(''objectness'', [sigmoid 1, sigmoid 0])]\<rparr>]"
      and out = "[\<lparr>bbox = [Box 11 11 15 15, Box 0 0 4 4, Box 1 1 2 2], im_size = (20, 20),
            extra_fields = [(''objectness'', [sigmoid 1, sigmoid 0, 1])]\<rparr>]",
      unfolded example_level example_forward_targets]
  from m have "min_size example_training_processor \<le> width (Box 11 11 15 15)"
    "min_size example_training_processor \<le> height (Box 0 0 4 4)"
    by simp_all
  moreover from m have "min_size example_training_processor \<le> width (Box 1 1 2 2) \<and>
      min_size example_training_processor \<le> height (Box 1 1 2 2) \<or>
    training example_training_processor \<and> Box 1 1 2 2 \<in> set (bbox (example_targets ! 0))"
    by auto
  ultimately show ?thesis
    using example_level example_forward_targets by simp
qed

end
